theory Spec2Isabelle
  imports Complex_Main "HOL-Library.Sublist" "HOL-Library.Log_Nat"
begin

section \<open>The transact step: data model\<close>

text \<open>
  The component under study is the transact step of the stepper (a Svelte component). Its
  script block holds a handful of module-level variables and the asynchronous function
  \<open>executeTransactions\<close> with its helpers. The embedding below passes the component
  variables explicitly as a record; every call to an external collaborator (hooks, the
  simulation endpoint, the signer, the Safe SDK, the result dispatcher) takes its outcome
  from an environment record and is written to a trace, together with a copy of the
  component variables at the moment of the call. These are the points where the
  asynchronous function is suspended and the user interface can observe the variables.
\<close>

datatype status =
    AwaitingPrevious
  | AwaitingSignature
  | SubmittedToSafe
  | Pending
  | Confirmed
  | Failed
  | Cancelled
  | Rejected
  | Retrying
  | Finalizing

text \<open>
  \<open>TransactionTimelineItem\<close>. The field \<open>estimatedGas\<close> is not part of the interface but
  is written by \<open>initTransactionsTimelineItems\<close> and carried along by every spread.
\<close>

record TransactionTimelineItem =
  title :: string
  message :: string
  etherscanUrl :: "string option"
  status :: status
  estimatedGas :: string

text \<open>
  JavaScript numbers are IEEE 754 binary64 values. A finite one is modelled by its exact
  rational value (\<open>Num\<close>; the two zeros are not told apart), next to \<open>NaN\<close> and the two
  infinities. A number of a JSON response (\<open>JNum\<close> below) is taken to be finite.
  Arithmetic on these values rounds; see \<open>round_double\<close> below.
\<close>

datatype number = NaN | PosInfinity | NegInfinity | Num rat

datatype json =
    JUndefined
  | JNull
  | JBool bool
  | JNum rat
  | JStr string
  | JArr "json list"
  | JObj "(string \<times> json) list"

text \<open>
  Errors as values. \<open>Thrown m\<close> is an \<open>Error\<close> with message \<open>m\<close> raised by an external
  collaborator (or by the \<open>unreachable\<close> helper); \<open>AssertionFailed\<close> comes from the
  \<open>assert\<close> helper with its optional message; \<open>TypeError\<close> is a property read on
  \<open>undefined\<close> or \<open>null\<close>; the last two are the errors the executors construct
  themselves around a failed gas estimation.
\<close>

datatype js_error =
    Thrown string
  | AssertionFailed "string option"
  | TypeError
  | GasEstimationFailed js_error
  | SafeGasEstimationFailed

text \<open>The populated transaction of the wallet library, as far as the step reads it.\<close>

record Transaction =
  tx_to :: "string option"
  tx_data :: "string option"
  tx_gasLimit :: "number option"

text \<open>
  \<open>TransactionWrapper\<close>; its \<open>title\<close> is named \<open>wrapper_title\<close> here, since the timeline
  item owns the field name \<open>title\<close>. \<open>TransactionWrapperWithGasLimit\<close> is the intersection
  type of the source, a record extension.
\<close>

record TransactionWrapper =
  wrapper_title :: string
  transaction :: Transaction
  applyGasBuffer :: bool

record TransactionWrapperWithGasLimit = TransactionWrapper +
  gasLimit :: "number option"

text \<open>\<open>Partial<TransactionTimelineItem>\<close> as the call sites use it.\<close>

record updates =
  upd_status :: "status option"
  upd_message :: "string option"
  upd_etherscanUrl :: "string option"

text \<open>The component variables.\<close>

record view =
  isRetrying :: bool
  failedTxIndex :: int
  isExecutionCompleted :: bool
  isErrorDetailsVisible :: bool
  error :: "js_error option"
  transactionsTimeline :: "TransactionTimelineItem list"

datatype event =
    AwaitBefore
  | AwaitTransactions
  | FetchSimulate "(string option \<times> string option) list"
  | SendTransaction nat "number option"
  | WaitReceipt nat
  | SafeSend "(string \<times> string) list" number
  | CallAfter "string list"
  | CallAfterSafe string
  | DispatchResultFailure js_error

text \<open>
  The state threaded through the model: the component variables, the local
  \<open>contractReceipts\<close> of \<open>executeTransactions\<close>, and the trace.
\<close>

record state = view +
  contractReceipts :: "string list"
  trace :: "(event \<times> view) list"

text \<open>
  What the world answers during one attempt. \<open>before\<close> and \<open>after\<close> are \<open>None\<close> when the
  hook resolves (or is absent) and \<open>Some e\<close> when it throws; \<open>afterSafe\<close> is \<open>None\<close> when
  no such hook is configured. \<open>sendTransaction\<close> and \<open>wait\<close> are indexed by the position
  of the wrapper whose transaction is sent. \<open>etherscanLink\<close>, the message of the error
  raised by \<open>unreachable\<close> and the numeric coercion of strings, arrays and objects are
  not defined in this component and are taken as parameters.
\<close>

record env =
  isTest :: bool
  safe :: bool
  signer :: bool
  address :: "string option"
  chainId :: nat
  network_name :: string
  duringAfterMsg :: "string option"
  before :: "js_error option"
  transactions :: "js_error + TransactionWrapper list"
  simulate :: "js_error + json"
  sendTransaction :: "nat \<Rightarrow> js_error + string"
  wait :: "nat \<Rightarrow> js_error + string"
  safeSend :: "js_error + string"
  after :: "js_error option"
  afterSafe :: "js_error option option"
  etherscanLink :: "string \<Rightarrow> string \<Rightarrow> string"
  unreachable_message :: string
  coerce_object :: "json \<Rightarrow> number"

definition initial_state :: state where
  "initial_state =
     \<lparr>isRetrying = False, failedTxIndex = - 1, isExecutionCompleted = False,
      isErrorDetailsVisible = False, error = None, transactionsTimeline = [],
      contractReceipts = [], trace = []\<rparr>"

definition emit :: "event \<Rightarrow> state \<Rightarrow> state" where
  "emit ev s = s\<lparr>trace := trace s @ [(ev, view.truncate s)]\<rparr>"

section \<open>JavaScript helpers\<close>

fun string_of_nat :: "nat \<Rightarrow> string" where
  "string_of_nat n =
     (if n < 10 then [char_of (48 + n)]
      else string_of_nat (n div 10) @ [char_of (48 + n mod 10)])"

declare string_of_nat.simps [simp del]

text \<open>Reading a named property, \<open>v.key\<close>, as destructuring does.\<close>

fun get_property :: "json \<Rightarrow> string \<Rightarrow> js_error + json" where
  "get_property JUndefined key = Inl TypeError"
| "get_property JNull key = Inl TypeError"
| "get_property (JObj kvs) key =
     Inr (case map_of kvs key of None \<Rightarrow> JUndefined | Some v \<Rightarrow> v)"
| "get_property v key = Inr JUndefined"

text \<open>Reading an index, \<open>v[i]\<close>.\<close>

fun get_index :: "json \<Rightarrow> nat \<Rightarrow> js_error + json" where
  "get_index JUndefined i = Inl TypeError"
| "get_index JNull i = Inl TypeError"
| "get_index (JArr xs) i = Inr (if i < length xs then xs ! i else JUndefined)"
| "get_index (JObj kvs) i =
     Inr (case map_of kvs (string_of_nat i) of None \<Rightarrow> JUndefined | Some v \<Rightarrow> v)"
| "get_index (JStr s) i = Inr (if i < length s then JStr [s ! i] else JUndefined)"
| "get_index v i = Inr JUndefined"

text \<open>The coercion applied by the multiplication in \<open>getGasBuffer\<close> to an untyped value.\<close>

fun ToNumber :: "env \<Rightarrow> json \<Rightarrow> number" where
  "ToNumber env JUndefined = NaN"
| "ToNumber env JNull = Num 0"
| "ToNumber env (JBool b) = Num (if b then 1 else 0)"
| "ToNumber env (JNum r) = Num r"
| "ToNumber env v = coerce_object env v"

text \<open>\<open>toLowerCase\<close> on the ASCII letters; other characters are left as they are.\<close>

definition lower_char :: "char \<Rightarrow> char" where
  "lower_char c =
     (case map_of (zip ''ABCDEFGHIJKLMNOPQRSTUVWXYZ'' ''abcdefghijklmnopqrstuvwxyz'') c of
        None \<Rightarrow> c
      | Some l \<Rightarrow> l)"

definition toLowerCase :: "string \<Rightarrow> string" where
  "toLowerCase s = map lower_char s"

fun string_includes :: "string \<Rightarrow> string \<Rightarrow> bool" where
  "string_includes [] pat = (pat = [])"
| "string_includes (c # cs) pat = (prefix pat (c # cs) \<or> string_includes cs pat)"

text \<open>
  The classification of a caught error,
  \<open>e.message.toLowerCase().includes('user rejected transaction')\<close>. Only errors of
  collaborators and \<open>TypeError\<close> reach a catch block that classifies; the engine's
  message of a \<open>TypeError\<close> does not mention a rejection.
\<close>

fun isRejection :: "js_error \<Rightarrow> bool" where
  "isRejection (Thrown m) = string_includes (toLowerCase m) ''user rejected transaction''"
| "isRejection e = False"

section \<open>Gas estimator and timeline tracker\<close>

text \<open>
  Rounding to binary64, to nearest with ties to even. \<open>exponent x\<close> is the binary
  exponent of a positive \<open>x\<close> (the floor of its logarithm to base 2); the spacing of the
  doubles around \<open>x\<close> is \<open>2\<close> to the power \<open>exponent x - 52\<close>, and \<open>2\<close> to the power
  \<open>-1074\<close> in the subnormal range; a result of magnitude \<open>2 ^ 1024\<close> or more is an
  infinity.
\<close>

definition exponent :: "rat \<Rightarrow> int" where
  "exponent x = (if 1 \<le> x then bitlen \<lfloor>x\<rfloor> - 1 else - bitlen (\<lceil>1 / x\<rceil> - 1))"

definition pow2 :: "int \<Rightarrow> rat" where
  "pow2 k = (if 0 \<le> k then 2 ^ nat k else 1 / 2 ^ nat (- k))"

definition round_half_even :: "rat \<Rightarrow> int" where
  "round_half_even x =
     (let n = \<lfloor>x\<rfloor>; r = x - of_int n
      in if r < 1 / 2 then n else if 1 / 2 < r then n + 1 else if even n then n else n + 1)"

definition round_double :: "rat \<Rightarrow> number" where
  "round_double x =
     (if x = 0 then Num 0
      else (let a = \<bar>x\<bar>;
                q = max (exponent a - 52) (- 1074);
                r = of_int (round_half_even (a / pow2 q)) * pow2 q
            in if 2 ^ 1024 \<le> r then (if 0 < x then PosInfinity else NegInfinity)
               else Num (if 0 < x then r else - r)))"

fun Math_ceil :: "number \<Rightarrow> number" where
  "Math_ceil (Num x) = Num (of_int \<lceil>x\<rceil>)"
| "Math_ceil v = v"

text \<open>
  \<open>Math.ceil(gasLimit * 1.25)\<close>: the product is a double, that is, the exact product
  rounded; \<open>1.25\<close> is a double itself.
\<close>

fun getGasBuffer :: "number \<Rightarrow> number" where
  "getGasBuffer (Num g) = Math_ceil (round_double (g * (5 / 4)))"
| "getGasBuffer v = v"

declare getGasBuffer.simps(1) [simp del]

definition apply_updates :: "updates \<Rightarrow> TransactionTimelineItem \<Rightarrow> TransactionTimelineItem" where
  "apply_updates u item =
     item\<lparr>status := (case upd_status u of None \<Rightarrow> status item | Some v \<Rightarrow> v),
          message := (case upd_message u of None \<Rightarrow> message item | Some v \<Rightarrow> v),
          etherscanUrl := (case upd_etherscanUrl u of None \<Rightarrow> etherscanUrl item
                           | Some v \<Rightarrow> Some v)\<rparr>"

text \<open>
  \<open>updateTransactionTimelineStatus\<close> for a wrapper that is defined. (Where the source can
  pass \<open>undefined\<close>, the caller's model says what happens.)
\<close>

definition updateTransactionTimelineStatus ::
  "'a TransactionWrapper_scheme \<Rightarrow> updates \<Rightarrow> state \<Rightarrow> state" where
  "updateTransactionTimelineStatus txWrapper u s =
     s\<lparr>transactionsTimeline :=
          map (\<lambda>item. if title item = wrapper_title txWrapper then apply_updates u item else item)
            (transactionsTimeline s)\<rparr>"

definition initTransactionsTimelineItems :: "TransactionWrapper list \<Rightarrow> bool \<Rightarrow> state \<Rightarrow> state" where
  "initTransactionsTimelineItems transactionWrappers isSafe s =
     s\<lparr>transactionsTimeline :=
          map (\<lambda>(index, tx).
                 \<lparr>title = wrapper_title tx,
                  message =
                    (if index = 0
                     then (if isSafe then ''Waiting for you to submit the transaction in your Safe''
                           else ''Waiting for you to confirm the transaction in your wallet'')
                     else ''Waiting on previous transaction''),
                  etherscanUrl = None,
                  status = (if index = 0 then AwaitingSignature else AwaitingPrevious),
                  estimatedGas = ''Unknown gas''\<rparr>)
            (enumerate 0 transactionWrappers)\<rparr>"

definition recalculateTimelineStatuses :: "int \<Rightarrow> state \<Rightarrow> state" where
  "recalculateTimelineStatuses retryIndex s =
     s\<lparr>error := None, isRetrying := False, failedTxIndex := - 1, isErrorDetailsVisible := False,
       transactionsTimeline :=
          map (\<lambda>(index, item).
                 if status item = Confirmed then item
                 else if int index = retryIndex
                      then item\<lparr>status := Retrying, message := ''Preparing to retry...''\<rparr>
                      else item\<lparr>status := AwaitingPrevious,
                                message := ''Waiting on previous transaction''\<rparr>)
            (enumerate 0 (transactionsTimeline s))\<rparr>"

definition toggleErrorDetails :: "nat \<Rightarrow> state \<Rightarrow> state" where
  "toggleErrorDetails index s =
     s\<lparr>failedTxIndex := int index, isErrorDetailsVisible := \<not> isErrorDetailsVisible s\<rparr>"

section \<open>Direct-signing executor\<close>

text \<open>
  The \<open>forEach\<close> over the wrappers that assigns the buffered limits from the simulation
  response; an assertion failure or a property read on \<open>undefined\<close> leaves the loop.
\<close>

fun assignGasLimits ::
  "json \<Rightarrow> nat \<Rightarrow> TransactionWrapperWithGasLimit list
     \<Rightarrow> js_error + TransactionWrapperWithGasLimit list" where
  "assignGasLimits simulationRes i [] = Inr []"
| "assignGasLimits simulationRes i (txWrapper # rest) =
     (if \<not> applyGasBuffer txWrapper
      then (case assignGasLimits simulationRes (Suc i) rest of
              Inl e \<Rightarrow> Inl e
            | Inr rest' \<Rightarrow> Inr (txWrapper # rest'))
      else (case get_index simulationRes i of
              Inl e \<Rightarrow> Inl e
            | Inr element \<Rightarrow>
                (case get_property element ''estimatedGas'' of
                   Inl e \<Rightarrow> Inl e
                 | Inr (JNum g) \<Rightarrow>
                     (if g > 0
                      then (case assignGasLimits simulationRes (Suc i) rest of
                              Inl e \<Rightarrow> Inl e
                            | Inr rest' \<Rightarrow>
                                Inr (txWrapper\<lparr>gasLimit := Some (getGasBuffer (Num g))\<rparr> # rest'))
                      else Inl (AssertionFailed None))
                 | Inr _ \<Rightarrow> Inl (AssertionFailed None))))"

definition simulation_request ::
  "'a TransactionWrapper_scheme list \<Rightarrow> (string option \<times> string option) list" where
  "simulation_request txs = map (\<lambda>tx. (tx_to (transaction tx), tx_data (transaction tx))) txs"

text \<open>The body of the \<open>try\<close> block of one loop iteration, for the wrapper at index \<open>i\<close>.\<close>

definition eoa_try ::
  "env \<Rightarrow> TransactionWrapperWithGasLimit \<Rightarrow> nat \<Rightarrow> state \<Rightarrow> (js_error + unit) \<times> state" where
  "eoa_try env executingTx i s =
     (let s1 = updateTransactionTimelineStatus executingTx
                 \<lparr>upd_status = Some AwaitingSignature,
                  upd_message = Some ''Waiting for you to confirm in your wallet'',
                  upd_etherscanUrl = None\<rparr> s
      in if \<not> signer env then (Inl (Thrown (unreachable_message env)), s1)
         else
           (let s2 = emit (SendTransaction i
                             (case gasLimit executingTx of
                                None \<Rightarrow> tx_gasLimit (transaction executingTx)
                              | Some g \<Rightarrow> Some g)) s1
            in case sendTransaction env i of
                 Inl e \<Rightarrow> (Inl e, s2)
               | Inr hash \<Rightarrow>
                   (let s3 = updateTransactionTimelineStatus executingTx
                               \<lparr>upd_status = Some Pending,
                                upd_message = Some ''Waiting for confirmation'',
                                upd_etherscanUrl = Some (etherscanLink env (network_name env) hash)\<rparr> s2;
                        s4 = emit (WaitReceipt i) s3
                    in case wait env i of
                         Inl e \<Rightarrow> (Inl e, s4)
                       | Inr transactionHash \<Rightarrow>
                           (Inr (),
                            updateTransactionTimelineStatus executingTx
                              \<lparr>upd_status = Some Confirmed,
                               upd_message = Some ''Transaction confirmed'',
                               upd_etherscanUrl =
                                 Some (etherscanLink env (network_name env) transactionHash)\<rparr>
                              (s4\<lparr>contractReceipts := contractReceipts s4 @ [transactionHash]\<rparr>)))))"

text \<open>The \<open>catch\<close> block of the iteration.\<close>

definition eoa_catch ::
  "TransactionWrapperWithGasLimit \<Rightarrow> nat \<Rightarrow> js_error \<Rightarrow> state \<Rightarrow> state" where
  "eoa_catch executingTx i e s =
     (if isRejection e
      then updateTransactionTimelineStatus executingTx
             \<lparr>upd_status = Some Rejected, upd_message = Some ''You rejected the transaction'',
              upd_etherscanUrl = None\<rparr> s
      else (updateTransactionTimelineStatus executingTx
             \<lparr>upd_status = Some Failed, upd_message = Some ''Transaction failed'',
              upd_etherscanUrl = None\<rparr> s)\<lparr>error := Some e\<rparr>)
     \<lparr>failedTxIndex := int i\<rparr>"

function eoa_loop ::
  "env \<Rightarrow> TransactionWrapperWithGasLimit list \<Rightarrow> nat \<Rightarrow> state \<Rightarrow> state" where
  "eoa_loop env txWrappersWithGas i s =
     (if i < length txWrappersWithGas
      then (case eoa_try env (txWrappersWithGas ! i) i s of
              (Inr u, s') \<Rightarrow> eoa_loop env txWrappersWithGas (Suc i) s'
            | (Inl e, s') \<Rightarrow> eoa_catch (txWrappersWithGas ! i) i e s')
      else s)"
  by pat_completeness auto
termination
  by (relation "measure (\<lambda>(env, txs, i, s). length txs - i)") auto

declare eoa_loop.simps [simp del]

text \<open>
  The first iteration when \<open>startIndex\<close> is negative: \<open>txWrappersWithGas[i]\<close> is
  \<open>undefined\<close>. With a non-empty timeline the status update throws a \<open>TypeError\<close> in the
  \<open>try\<close> block and again in the \<open>catch\<close> block, which leaves the function. With an empty
  timeline the updates do nothing, reading the transaction of the undefined wrapper (or
  the missing signer) throws, and the \<open>catch\<close> block records the index and breaks.
\<close>

definition eoa_undefined_iteration :: "env \<Rightarrow> int \<Rightarrow> state \<Rightarrow> (js_error + unit) \<times> state" where
  "eoa_undefined_iteration env i s =
     (if transactionsTimeline s \<noteq> [] then (Inl TypeError, s)
      else (let e = (if signer env then TypeError else Thrown (unreachable_message env))
            in (Inr (), (if isRejection e then s else s\<lparr>error := Some e\<rparr>)\<lparr>failedTxIndex := i\<rparr>)))"

text \<open>The callback \<open>(tx) => ({ ...tx, gasLimit: undefined })\<close>.\<close>

definition without_gasLimit :: "TransactionWrapper \<Rightarrow> TransactionWrapperWithGasLimit" where
  "without_gasLimit tx = TransactionWrapper.extend tx (TransactionWrapperWithGasLimit.fields None)"

definition needToSimulate :: "env \<Rightarrow> TransactionWrapperWithGasLimit list \<Rightarrow> bool" where
  "needToSimulate env txWrappersWithGas =
     (if isTest env then False else list_ex applyGasBuffer txWrappersWithGas)"

definition eoa_run ::
  "env \<Rightarrow> TransactionWrapperWithGasLimit list \<Rightarrow> int \<Rightarrow> state \<Rightarrow> (js_error + unit) \<times> state" where
  "eoa_run env txWrappersWithGas startIndex s =
     (if startIndex < 0 then eoa_undefined_iteration env startIndex s
      else (Inr (), eoa_loop env txWrappersWithGas (nat startIndex) s))"

definition handleEoaTransactions ::
  "env \<Rightarrow> TransactionWrapper list \<Rightarrow> int \<Rightarrow> state \<Rightarrow> (js_error + unit) \<times> state" where
  "handleEoaTransactions env transactionWrappers startIndex s =
     (let txWrappersWithGas =
            map without_gasLimit transactionWrappers
      in if needToSimulate env txWrappersWithGas
         then (let s1 = emit (FetchSimulate (simulation_request txWrappersWithGas)) s
               in case simulate env of
                    Inl e \<Rightarrow> (Inl (GasEstimationFailed e), s1)
                  | Inr simulationRes \<Rightarrow>
                      (case assignGasLimits simulationRes 0 txWrappersWithGas of
                         Inl e \<Rightarrow> (Inl (GasEstimationFailed e), s1)
                       | Inr txs \<Rightarrow> eoa_run env txs startIndex s1))
         else eoa_run env txWrappersWithGas startIndex s)"

section \<open>Multisig executor\<close>

definition safe_txs :: "TransactionWrapper list \<Rightarrow> (string \<times> string) list option" where
  "safe_txs transactionWrappers =
     (if list_all (\<lambda>w. tx_to (transaction w) \<noteq> None \<and> tx_data (transaction w) \<noteq> None)
           transactionWrappers
      then Some (map (\<lambda>w. (the (tx_to (transaction w)), the (tx_data (transaction w))))
                   transactionWrappers)
      else None)"

definition handleSafeAppTransactions ::
  "env \<Rightarrow> TransactionWrapper list \<Rightarrow> state \<Rightarrow> (js_error + string option) \<times> state" where
  "handleSafeAppTransactions env transactionWrappers s =
     (let s1 = emit (FetchSimulate (simulation_request transactionWrappers)) s
      in case simulate env of
           Inl e \<Rightarrow> (Inl SafeGasEstimationFailed, s1)
         | Inr res \<Rightarrow>
             (case get_property res ''estimatedGas'' of
                Inl e \<Rightarrow> (Inl SafeGasEstimationFailed, s1)
              | Inr estimatedGas' \<Rightarrow>
                  (let estimatedGasWithBuffer = getGasBuffer (ToNumber env estimatedGas')
                   in if length transactionWrappers \<noteq> 1
                      then (Inl (AssertionFailed (Some ''Expected only one transaction in Safe mode.'')), s1)
                      else
                        (let safeTx = hd transactionWrappers
                         in case safe_txs transactionWrappers of
                              None \<Rightarrow> (Inl (Thrown (unreachable_message env)), s1)
                            | Some txs \<Rightarrow>
                                (let s2 = emit (SafeSend txs estimatedGasWithBuffer) s1
                                 in case safeSend env of
                                      Inr response \<Rightarrow>
                                        (Inr (Some response),
                                         updateTransactionTimelineStatus safeTx
                                           \<lparr>upd_status = Some SubmittedToSafe,
                                            upd_message = Some ''Transaction submitted to Safe'',
                                            upd_etherscanUrl = None\<rparr> s2)
                                    | Inl e \<Rightarrow>
                                        (Inr None,
                                         if isRejection e
                                         then updateTransactionTimelineStatus safeTx
                                                \<lparr>upd_status = Some Rejected,
                                                 upd_message = Some ''You rejected the transaction'',
                                                 upd_etherscanUrl = None\<rparr> s2
                                         else (updateTransactionTimelineStatus safeTx
                                                 \<lparr>upd_status = Some Failed,
                                                  upd_message = Some ''Transaction failed'',
                                                  upd_etherscanUrl = None\<rparr> s2)
                                              \<lparr>error := Some e, failedTxIndex := 0\<rparr>))))))"

section \<open>Orchestrator\<close>

definition has_failure :: "state \<Rightarrow> bool" where
  "has_failure s =
     list_ex (\<lambda>tx. status tx = Failed \<or> status tx = Rejected \<or> status tx = Retrying)
       (transactionsTimeline s)"

text \<open>
  The \<open>try\<close>/\<open>catch\<close> around the \<open>after\<close> hook. The wrapper passed to the two status
  updates is \<open>transactionWrappers[transactionsTimeline.length - 1]\<close>: on an empty
  timeline the updates do nothing whatever the wrapper is; on a timeline longer than the
  wrapper list the wrapper is \<open>undefined\<close> and the first update throws a \<open>TypeError\<close>,
  which the \<open>catch\<close> block dispatches.
\<close>

definition finalize_eoa :: "env \<Rightarrow> TransactionWrapper list \<Rightarrow> state \<Rightarrow> state" where
  "finalize_eoa env transactionWrappers s =
     (let n = length (transactionsTimeline s)
      in if n = 0
         then (let s1 = emit (CallAfter (contractReceipts s)) s
               in case after env of
                    None \<Rightarrow> s1
                  | Some e \<Rightarrow> emit (DispatchResultFailure e) s1)
         else if length transactionWrappers < n
         then emit (DispatchResultFailure TypeError) s
         else
           (let lastTx = transactionWrappers ! (n - 1);
                s1 = updateTransactionTimelineStatus lastTx
                       \<lparr>upd_status = Some Finalizing,
                        upd_message =
                          Some (''Transaction confirmed. '' @
                                (case duringAfterMsg env of
                                   None \<Rightarrow> ''Wrapping up...''
                                 | Some m \<Rightarrow> m)),
                        upd_etherscanUrl = None\<rparr> s;
                s2 = emit (CallAfter (contractReceipts s1)) s1
            in case after env of
                 Some e \<Rightarrow> emit (DispatchResultFailure e) s2
               | None \<Rightarrow>
                   updateTransactionTimelineStatus lastTx
                     \<lparr>upd_status = Some Confirmed,
                      upd_message = Some ''Transaction confirmed'',
                      upd_etherscanUrl = None\<rparr> s2))"

definition finalize_safe :: "env \<Rightarrow> string option \<Rightarrow> state \<Rightarrow> (js_error + unit) \<times> state" where
  "finalize_safe env safeSendTransactionResponse s =
     (case afterSafe env of
        None \<Rightarrow> (Inr (), s)
      | Some outcome \<Rightarrow>
          (case safeSendTransactionResponse of
             None \<Rightarrow>
               (Inl (AssertionFailed (Some ''Expected SafeSendTransactionResponse to be defined.'')), s)
           | Some response \<Rightarrow>
               (let s1 = emit (CallAfterSafe response) s
                in (Inr (), case outcome of
                              None \<Rightarrow> s1
                            | Some e \<Rightarrow> emit (DispatchResultFailure e) s1))))"

definition complete :: "state \<Rightarrow> state" where
  "complete s = s\<lparr>isRetrying := False, isExecutionCompleted := True\<rparr>"

definition executeTransactions :: "env \<Rightarrow> int \<Rightarrow> state \<Rightarrow> (js_error + unit) \<times> state" where
  "executeTransactions env retryIndex s0 =
     (let s = (if failedTxIndex s0 \<noteq> - 1 then recalculateTimelineStatuses retryIndex s0 else s0)
      in case address env of
           None \<Rightarrow> (Inl (AssertionFailed None), s)
         | Some addr \<Rightarrow>
             (let s1 = emit AwaitBefore (s\<lparr>contractReceipts := []\<rparr>)
              in case before env of
                   Some e \<Rightarrow> (Inl e, s1)
                 | None \<Rightarrow>
                     (let s2 = emit AwaitTransactions s1
                      in case transactions env of
                           Inl e \<Rightarrow> (Inl e, s2)
                         | Inr transactionWrappers \<Rightarrow>
                             (let s3 = (if transactionsTimeline s2 = []
                                        then initTransactionsTimelineItems transactionWrappers
                                               (safe env) s2
                                        else s2)
                              in if safe env
                                 then (case handleSafeAppTransactions env transactionWrappers s3 of
                                         (Inl e, s4) \<Rightarrow> (Inl e, s4)
                                       | (Inr response, s4) \<Rightarrow>
                                           if has_failure s4 then (Inr (), s4)
                                           else (case finalize_safe env response s4 of
                                                   (Inl e, s5) \<Rightarrow> (Inl e, s5)
                                                 | (Inr u, s5) \<Rightarrow> (Inr (), complete s5)))
                                 else (case handleEoaTransactions env transactionWrappers
                                              retryIndex s3 of
                                         (Inl e, s4) \<Rightarrow> (Inl e, s4)
                                       | (Inr u, s4) \<Rightarrow>
                                           if has_failure s4 then (Inr (), s4)
                                           else (Inr (), complete
                                                   (finalize_eoa env transactionWrappers s4)))))))"

text \<open>\<open>onMount\<close> starts the first attempt with the default \<open>retryIndex = 0\<close>.\<close>

definition onMount :: "env \<Rightarrow> state \<Rightarrow> (js_error + unit) \<times> state" where
  "onMount env s = executeTransactions env 0 s"

definition retryFailedTransaction :: "env \<Rightarrow> state \<Rightarrow> (js_error + unit) \<times> state" where
  "retryFailedTransaction env s = executeTransactions env (failedTxIndex s) (s\<lparr>isRetrying := True\<rparr>)"

section \<open>What the markup renders\<close>

text \<open>The condition under which the row of item \<open>index\<close> shows the button ``Try again''.\<close>

definition try_again_shown :: "'a view_scheme \<Rightarrow> nat \<Rightarrow> bool" where
  "try_again_shown s index =
     (index < length (transactionsTimeline s) \<and>
      (let st = status (transactionsTimeline s ! index)
       in st = Failed \<or> st = Rejected \<or> (st = Retrying \<and> int index = failedTxIndex s)))"

definition try_again_disabled :: "'a view_scheme \<Rightarrow> bool" where
  "try_again_disabled s = isRetrying s"

text \<open>Truthiness of a number that is an integer: \<open>!!n\<close>.\<close>

definition truthy :: "int \<Rightarrow> bool" where
  "truthy n = (n \<noteq> 0)"

definition back_disabled :: "'a view_scheme \<Rightarrow> bool" where
  "back_disabled s = truthy (failedTxIndex s)"

definition continue_disabled :: "'a view_scheme \<Rightarrow> bool" where
  "continue_disabled s = (\<not> isExecutionCompleted s)"

section \<open>Observations and example inputs\<close>

text \<open>The calls made between two states of one run, in order.\<close>

definition new_events :: "state \<Rightarrow> state \<Rightarrow> event list" where
  "new_events s s' = map fst (drop (length (trace s)) (trace s'))"

definition example_wrapper :: "string \<Rightarrow> bool \<Rightarrow> TransactionWrapper" where
  "example_wrapper t b =
     \<lparr>wrapper_title = t,
      transaction = \<lparr>tx_to = Some ''0xto'', tx_data = Some ''0xdata'', tx_gasLimit = Some (Num 21000)\<rparr>,
      applyGasBuffer = b\<rparr>"

text \<open>
  A direct-signing session with two wrappers, the first of which asks for the gas buffer,
  in which every collaborator answers.
\<close>

definition example_env :: env where
  "example_env =
     \<lparr>isTest = False, safe = False, signer = True, address = Some ''0xme'', chainId = 1,
      network_name = ''mainnet'', duringAfterMsg = None, before = None,
      transactions = Inr [example_wrapper ''A'' True, example_wrapper ''B'' False],
      simulate = Inr (JArr [JObj [(''estimatedGas'', JNum 100)], JObj [(''estimatedGas'', JNum 101)]]),
      sendTransaction = (\<lambda>i. Inr ''0xh''), wait = (\<lambda>i. Inr ''0xr''), safeSend = Inr ''0xsafe'',
      after = None, afterSafe = None, etherscanLink = (\<lambda>n h. n @ ''/'' @ h),
      unreachable_message = ''Unreachable code'', coerce_object = (\<lambda>v. NaN)\<rparr>"

text \<open>A multisig session with the single wrapper \<open>A\<close>.\<close>

definition example_safe_env :: env where
  "example_safe_env =
     example_env\<lparr>safe := True, transactions := Inr [example_wrapper ''A'' True],
                 simulate := Inr (JArr [JObj [(''estimatedGas'', JNum 100)]])\<rparr>"

section \<open>Notions used to state the properties\<close>

text \<open>
  None of the definitions of this section is part of the component; they name what the
  statements below speak about.
\<close>

text \<open>
  \<open>kept T a b\<close>: item \<open>b\<close> has the title of item \<open>a\<close> and is the same record unless
  that title is in \<open>T\<close>. An operation that updates only items titled in \<open>T\<close> relates
  the timeline before to the timeline after, position by position.
\<close>

definition kept :: "string set \<Rightarrow> TransactionTimelineItem \<Rightarrow> TransactionTimelineItem \<Rightarrow> bool" where
  "kept T a b = (title b = title a \<and> (title a \<notin> T \<longrightarrow> b = a))"

text \<open>
  The transaction at index \<open>i\<close> goes through: a signer is present, the submission is
  accepted and the confirmation arrives.
\<close>

definition send_ok :: "env \<Rightarrow> nat \<Rightarrow> bool" where
  "send_ok env i = (signer env \<and> \<not> isl (sendTransaction env i) \<and> \<not> isl (wait env i))"

text \<open>
  The estimate the direct-signing executor accepts for the wrapper at index \<open>i\<close>: the
  \<open>estimatedGas\<close> of element \<open>i\<close> of the response, when it is a positive number.
\<close>

definition estimate_of :: "json \<Rightarrow> nat \<Rightarrow> rat option" where
  "estimate_of simulationRes i =
     (case get_index simulationRes i of
        Inl e \<Rightarrow> None
      | Inr element \<Rightarrow>
          (case get_property element ''estimatedGas'' of
             Inr (JNum g) \<Rightarrow> if g > 0 then Some g else None
           | _ \<Rightarrow> None))"

text \<open>
  The wrapper list the loop runs on after a successful estimation (\<open>resolved\<close>), the
  condition under which the estimation succeeds (\<open>estimates_ok\<close>) and fails
  (\<open>simulation_fails\<close>), and the gas limit the loop sends for a wrapper (\<open>sent_gas\<close>).
\<close>

definition with_buffer ::
  "json \<Rightarrow> nat \<times> TransactionWrapperWithGasLimit \<Rightarrow> TransactionWrapperWithGasLimit" where
  "with_buffer simulationRes p =
     (if applyGasBuffer (snd p)
      then (snd p)\<lparr>gasLimit := Some (getGasBuffer (Num (the (estimate_of simulationRes (fst p)))))\<rparr>
      else snd p)"

definition estimates_ok :: "json \<Rightarrow> nat \<Rightarrow> 'a TransactionWrapper_scheme list \<Rightarrow> bool" where
  "estimates_ok simulationRes i txs =
     list_all (\<lambda>p. applyGasBuffer (snd p) \<longrightarrow> estimate_of simulationRes (fst p) \<noteq> None)
       (enumerate i txs)"

definition simulation_fails :: "env \<Rightarrow> TransactionWrapper list \<Rightarrow> bool" where
  "simulation_fails env ws =
     (case simulate env of Inl e \<Rightarrow> True | Inr res \<Rightarrow> \<not> estimates_ok res 0 ws)"

definition resolved :: "env \<Rightarrow> TransactionWrapper list \<Rightarrow> TransactionWrapperWithGasLimit list" where
  "resolved env ws =
     (if needToSimulate env (map without_gasLimit ws)
      then (case simulate env of
              Inl e \<Rightarrow> map without_gasLimit ws
            | Inr res \<Rightarrow> map (with_buffer res) (enumerate 0 (map without_gasLimit ws)))
      else map without_gasLimit ws)"

definition sent_gas :: "TransactionWrapperWithGasLimit \<Rightarrow> number option" where
  "sent_gas tx = (case gasLimit tx of None \<Rightarrow> tx_gasLimit (transaction tx) | Some g \<Rightarrow> Some g)"

text \<open>The trace of \<open>s'\<close> continues the trace of \<open>s\<close>.\<close>

definition extends :: "state \<Rightarrow> state \<Rightarrow> bool" where
  "extends s s' = prefix (trace s) (trace s')"

text \<open>
  The state in which \<open>executeTransactions\<close> calls the executor, when the address is
  present and both hooks resolve: after the reset (if a failure is recorded), the two hook
  calls and the initialisation of the timeline (if it is empty).
\<close>

definition entry_state :: "env \<Rightarrow> int \<Rightarrow> TransactionWrapper list \<Rightarrow> state \<Rightarrow> state" where
  "entry_state env retryIndex ws s0 =
     (let s = (if failedTxIndex s0 \<noteq> - 1 then recalculateTimelineStatuses retryIndex s0 else s0);
          s2 = emit AwaitTransactions (emit AwaitBefore (s\<lparr>contractReceipts := []\<rparr>))
      in if transactionsTimeline s2 = [] then initTransactionsTimelineItems ws (safe env) s2 else s2)"

text \<open>
  The simulation of the multisig executor answers: the call returns and \<open>estimatedGas\<close>
  can be read from the response (whatever its value).
\<close>

definition safe_simulation_ok :: "env \<Rightarrow> bool" where
  "safe_simulation_ok env =
     (case simulate env of
        Inl e \<Rightarrow> False
      | Inr res \<Rightarrow> \<not> isl (get_property res ''estimatedGas''))"

text \<open>
  An attempt without failure: in direct-signing mode the estimation (when one is made),
  every submission, every confirmation and the \<open>after\<close> hook succeed; in multisig mode
  there is one wrapper with a recipient and call data, and the simulation, the submission
  and the \<open>afterSafe\<close> hook (when configured) succeed.
\<close>

definition eoa_no_failure :: "env \<Rightarrow> TransactionWrapper list \<Rightarrow> bool" where
  "eoa_no_failure env ws =
     ((isTest env \<or> \<not> list_ex applyGasBuffer ws \<or> \<not> simulation_fails env ws) \<and>
      list_all (send_ok env) [0..<length ws] \<and> after env = None)"

definition safe_no_failure :: "env \<Rightarrow> TransactionWrapper list \<Rightarrow> bool" where
  "safe_no_failure env ws =
     (length ws = 1 \<and> safe_simulation_ok env \<and> safe_txs ws \<noteq> None \<and> \<not> isl (safeSend env) \<and>
      (afterSafe env = None \<or> afterSafe env = Some None))"

text \<open>
  The indices of the wrappers whose transactions a call submits: the direct-signing executor
  sends one wrapper per call, the multisig executor the whole batch.
\<close>

fun submitted :: "event \<Rightarrow> nat list" where
  "submitted (SendTransaction j g) = [j]"
| "submitted (SafeSend txs g) = [0..<length txs]"
| "submitted ev = []"

text \<open>
  Scenario A of the specification: two direct-signing transactions, the first confirms, the
  user rejects the second. \<open>example_failed_state\<close> is the state this first attempt
  leaves.
\<close>

definition example_rejecting_env :: env where
  "example_rejecting_env =
     example_env\<lparr>sendTransaction :=
       (\<lambda>i. if i = 1 then Inl (Thrown ''User rejected transaction'') else Inr ''0xh'')\<rparr>"

definition example_failed_state :: state where
  "example_failed_state = snd (onMount example_rejecting_env initial_state)"

text \<open>
  The states a first attempt leaves in the multisig session of the example when the
  submission to the multisig backend is rejected by the user, and when it fails for
  another reason.
\<close>

definition example_safe_rejected_state :: state where
  "example_safe_rejected_state =
     snd (onMount (example_safe_env\<lparr>safeSend := Inl (Thrown ''User rejected transaction'')\<rparr>)
            initial_state)"

definition example_safe_failed_state :: state where
  "example_safe_failed_state =
     snd (onMount (example_safe_env\<lparr>safeSend := Inl (Thrown ''execution reverted'')\<rparr>)
            initial_state)"

text \<open>Whether some row of the timeline shows the button ``Try again''.\<close>

definition try_again_rendered :: "'a view_scheme \<Rightarrow> bool" where
  "try_again_rendered s = list_ex (try_again_shown s) [0..<length (transactionsTimeline s)]"

text \<open>
  \<open>covered ws k s\<close>: the timeline of \<open>s\<close> is either not initialised yet (and the
  attempt starts at index 0), or it was built from the batch \<open>ws\<close> and every item that is
  not titled as a wrapper at index \<open>k\<close> or above is \<open>confirmed\<close>. This is the shape of
  the state before a first attempt and before a retry at the failed index. (A negative
  \<open>k\<close> stands for a retry entered while \<open>failedTxIndex\<close> is \<open>-1\<close>, as after a
  rejection in multisig mode; every index is then at or above \<open>k\<close>.)
\<close>

definition covered :: "TransactionWrapper list \<Rightarrow> int \<Rightarrow> state \<Rightarrow> bool" where
  "covered ws k s =
     (transactionsTimeline s = [] \<and> k = 0 \<or>
      (0 \<le> k \<or> transactionsTimeline s \<noteq> []) \<and>
      map title (transactionsTimeline s) = map wrapper_title ws \<and>
      list_all (\<lambda>b. title b \<in> wrapper_title ` set (drop (nat k) ws) \<or> status b = Confirmed)
        (transactionsTimeline s))"

section \<open>Evaluation of the model on concrete inputs\<close>

lemmas model_defs =
  example_env_def example_safe_env_def example_wrapper_def initial_state_def onMount_def
  executeTransactions_def handleSafeAppTransactions_def handleEoaTransactions_def emit_def
  simulation_request_def updateTransactionTimelineStatus_def apply_updates_def
  initTransactionsTimelineItems_def recalculateTimelineStatuses_def safe_txs_def has_failure_def
  finalize_eoa_def finalize_safe_def complete_def needToSimulate_def eoa_run_def eoa_try_def
  eoa_catch_def eoa_undefined_iteration_def retryFailedTransaction_def view.truncate_def
  toLowerCase_def lower_char_def Let_def without_gasLimit_def TransactionWrapper.extend_def
  TransactionWrapperWithGasLimit.fields_def new_events_def enumerate_eq_zip eoa_loop.simps

section \<open>Frame and outcome of the executors\<close>

lemma emit_fields [simp]:
  "isRetrying (emit ev s) = isRetrying s"
  "failedTxIndex (emit ev s) = failedTxIndex s"
  "isExecutionCompleted (emit ev s) = isExecutionCompleted s"
  "isErrorDetailsVisible (emit ev s) = isErrorDetailsVisible s"
  "error (emit ev s) = error s"
  "transactionsTimeline (emit ev s) = transactionsTimeline s"
  "contractReceipts (emit ev s) = contractReceipts s"
  "trace (emit ev s) = trace s @ [(ev, view.truncate s)]"
  by (simp_all add: emit_def)

lemma update_fields [simp]:
  "isRetrying (updateTransactionTimelineStatus w u s) = isRetrying s"
  "failedTxIndex (updateTransactionTimelineStatus w u s) = failedTxIndex s"
  "isExecutionCompleted (updateTransactionTimelineStatus w u s) = isExecutionCompleted s"
  "isErrorDetailsVisible (updateTransactionTimelineStatus w u s) = isErrorDetailsVisible s"
  "error (updateTransactionTimelineStatus w u s) = error s"
  "contractReceipts (updateTransactionTimelineStatus w u s) = contractReceipts s"
  "trace (updateTransactionTimelineStatus w u s) = trace s"
  by (simp_all add: updateTransactionTimelineStatus_def)

lemma apply_updates_fields [simp]:
  "title (apply_updates u item) = title item"
  "estimatedGas (apply_updates u item) = estimatedGas item"
  "status (apply_updates u item) = (case upd_status u of None \<Rightarrow> status item | Some v \<Rightarrow> v)"
  "message (apply_updates u item) = (case upd_message u of None \<Rightarrow> message item | Some v \<Rightarrow> v)"
  "etherscanUrl (apply_updates u item) =
     (case upd_etherscanUrl u of None \<Rightarrow> etherscanUrl item | Some v \<Rightarrow> Some v)"
  by (simp_all add: apply_updates_def)

lemma kept_refl: "list_all2 (kept T) xs xs"
  by (simp add: list_all2_same kept_def)

lemma kept_trans:
  "list_all2 (kept T1) xs ys \<Longrightarrow> list_all2 (kept T2) ys zs \<Longrightarrow> T1 \<union> T2 \<subseteq> T
     \<Longrightarrow> list_all2 (kept T) xs zs"
proof -
  assume a: "list_all2 (kept T1) xs ys" "list_all2 (kept T2) ys zs" and sub: "T1 \<union> T2 \<subseteq> T"
  have "\<And>a b c. kept T1 a b \<Longrightarrow> kept T2 b c \<Longrightarrow> kept T a c"
    using sub by (auto simp: kept_def)
  from list_all2_trans[OF this a] show ?thesis .
qed

lemma kept_titles: "list_all2 (kept T) xs ys \<Longrightarrow> map title ys = map title xs"
  unfolding list_all2_conv_all_nth kept_def by (auto intro: nth_equalityI)

lemma kept_update:
  "list_all2 (kept {wrapper_title w}) (transactionsTimeline s)
     (transactionsTimeline (updateTransactionTimelineStatus w u s))"
  by (simp add: updateTransactionTimelineStatus_def list_all2_map2 list_all2_same kept_def)

lemma status_update:
  "upd_status u = Some st \<Longrightarrow> b \<in> set (transactionsTimeline (updateTransactionTimelineStatus w u s))
     \<Longrightarrow> title b = wrapper_title w \<Longrightarrow> status b = st"
  by (auto simp: updateTransactionTimelineStatus_def)

lemma kept_preserves:
  assumes "list_all2 (kept T) xs ys" "\<forall>a\<in>set xs. title a \<in> U \<longrightarrow> P a" "U \<inter> T = {}"
  shows "\<forall>b\<in>set ys. title b \<in> U \<longrightarrow> P b"
proof (intro ballI impI)
  fix b assume b: "b \<in> set ys" "title b \<in> U"
  then obtain j where j: "j < length ys" "ys ! j = b" by (auto simp: in_set_conv_nth)
  from assms(1) j have "kept T (xs ! j) b" "j < length xs"
    by (auto simp: list_all2_conv_all_nth)
  with b assms(3) have "b = xs ! j" by (auto simp: kept_def)
  with \<open>j < length xs\<close> assms(2) b show "P b" by auto
qed

lemma eoa_try_kept:
  "list_all2 (kept {wrapper_title tx}) (transactionsTimeline s)
     (transactionsTimeline (snd (eoa_try env tx i s)))"
  unfolding eoa_try_def Let_def
  by (auto simp: updateTransactionTimelineStatus_def list_all2_map2 list_all2_same kept_def
        split: sum.splits)

lemma eoa_try_fields [simp]:
  "isRetrying (snd (eoa_try env tx i s)) = isRetrying s"
  "failedTxIndex (snd (eoa_try env tx i s)) = failedTxIndex s"
  "isExecutionCompleted (snd (eoa_try env tx i s)) = isExecutionCompleted s"
  "isErrorDetailsVisible (snd (eoa_try env tx i s)) = isErrorDetailsVisible s"
  "error (snd (eoa_try env tx i s)) = error s"
  unfolding eoa_try_def Let_def by (auto split: sum.splits)

lemma eoa_try_ok_iff: "(\<exists>u. fst (eoa_try env tx i s) = Inr u) = send_ok env i"
  unfolding eoa_try_def Let_def send_ok_def by (auto split: sum.splits simp: isl_def)

lemma eoa_try_confirmed:
  assumes "fst (eoa_try env tx i s) = Inr u"
    and "b \<in> set (transactionsTimeline (snd (eoa_try env tx i s)))" "title b = wrapper_title tx"
  shows "status b = Confirmed"
  using assms unfolding eoa_try_def Let_def
  by (auto split: sum.splits if_splits dest: status_update[rotated])

lemma eoa_catch_kept:
  "list_all2 (kept {wrapper_title tx}) (transactionsTimeline s)
     (transactionsTimeline (eoa_catch tx i e s))"
  unfolding eoa_catch_def
  by (auto simp: updateTransactionTimelineStatus_def list_all2_map2 list_all2_same kept_def)

lemma eoa_catch_fields [simp]:
  "isRetrying (eoa_catch tx i e s) = isRetrying s"
  "failedTxIndex (eoa_catch tx i e s) = int i"
  "isExecutionCompleted (eoa_catch tx i e s) = isExecutionCompleted s"
  "isErrorDetailsVisible (eoa_catch tx i e s) = isErrorDetailsVisible s"
  "trace (eoa_catch tx i e s) = trace s"
  "error (eoa_catch tx i e s) = (if isRejection e then error s else Some e)"
  unfolding eoa_catch_def by auto

lemma eoa_catch_status:
  assumes "b \<in> set (transactionsTimeline (eoa_catch tx i e s))" "title b = wrapper_title tx"
  shows "status b = (if isRejection e then Rejected else Failed)"
  using assms unfolding eoa_catch_def
  by (auto split: if_splits dest: status_update[rotated])

lemma eoa_loop_step:
  "eoa_loop env txs i s =
     (if i < length txs
      then (if send_ok env i then eoa_loop env txs (Suc i) (snd (eoa_try env (txs ! i) i s))
            else eoa_catch (txs ! i) i (projl (fst (eoa_try env (txs ! i) i s)))
                   (snd (eoa_try env (txs ! i) i s)))
      else s)"
proof (cases "eoa_try env (txs ! i) i s")
  case (Pair r s1)
  show ?thesis
  proof (cases r)
    case (Inl e)
    with Pair have "\<not> send_ok env i" using eoa_try_ok_iff[of env "txs ! i" i s] by auto
    with Pair Inl show ?thesis by (subst eoa_loop.simps) simp
  next
    case (Inr u)
    with Pair have "send_ok env i" using eoa_try_ok_iff[of env "txs ! i" i s] by auto
    with Pair Inr show ?thesis by (subst eoa_loop.simps) simp
  qed
qed

lemma titles_drop:
  "i < length txs \<Longrightarrow>
     wrapper_title ` set (drop i txs) = insert (wrapper_title (txs ! i)) (wrapper_title ` set (drop (Suc i) txs))"
  by (simp add: Cons_nth_drop_Suc[symmetric])

lemma eoa_loop_kept:
  "list_all2 (kept (wrapper_title ` set (drop i txs))) (transactionsTimeline s)
     (transactionsTimeline (eoa_loop env txs i s))"
proof (induction "length txs - i" arbitrary: i s)
  case 0
  then show ?case by (subst eoa_loop_step) (simp add: kept_refl)
next
  case (Suc n)
  then have i: "i < length txs" by simp
  let ?s1 = "snd (eoa_try env (txs ! i) i s)"
  have k1: "list_all2 (kept {wrapper_title (txs ! i)}) (transactionsTimeline s) (transactionsTimeline ?s1)"
    by (rule eoa_try_kept)
  show ?case
  proof (cases "send_ok env i")
    case True
    from Suc have "n = length txs - Suc i" by simp
    from Suc(1)[OF this] have
      "list_all2 (kept (wrapper_title ` set (drop (Suc i) txs))) (transactionsTimeline ?s1)
         (transactionsTimeline (eoa_loop env txs (Suc i) ?s1))" .
    from kept_trans[OF k1 this, of "wrapper_title ` set (drop i txs)"] i True
    show ?thesis by (subst eoa_loop_step) (simp add: titles_drop)
  next
    case False
    have "list_all2 (kept {wrapper_title (txs ! i)}) (transactionsTimeline ?s1)
            (transactionsTimeline (eoa_catch (txs ! i) i (projl (fst (eoa_try env (txs ! i) i s))) ?s1))"
      by (rule eoa_catch_kept)
    from kept_trans[OF k1 this, of "wrapper_title ` set (drop i txs)"] i False
    show ?thesis by (subst eoa_loop_step) (simp add: titles_drop)
  qed
qed

lemma eoa_loop_all_ok:
  assumes "\<forall>j. i \<le> j \<and> j < length txs \<longrightarrow> send_ok env j"
  shows "failedTxIndex (eoa_loop env txs i s) = failedTxIndex s \<and>
         error (eoa_loop env txs i s) = error s \<and>
         (\<forall>b\<in>set (transactionsTimeline (eoa_loop env txs i s)).
            title b \<in> wrapper_title ` set (drop i txs) \<longrightarrow> status b = Confirmed)"
  using assms
proof (induction "length txs - i" arbitrary: i s)
  case 0
  then show ?case by (subst (1 2 3) eoa_loop_step) simp
next
  case (Suc n)
  then have i: "i < length txs" by simp
  with Suc.prems have ok: "send_ok env i" by simp
  let ?s1 = "snd (eoa_try env (txs ! i) i s)"
  let ?s' = "eoa_loop env txs (Suc i) ?s1"
  have step: "eoa_loop env txs i s = ?s'"
    using i ok by (subst eoa_loop_step) simp
  from Suc have n: "n = length txs - Suc i" by simp
  from Suc.prems have "\<forall>j. Suc i \<le> j \<and> j < length txs \<longrightarrow> send_ok env j" by simp
  from Suc(1)[OF n this, of ?s1] have IH:
    "failedTxIndex ?s' = failedTxIndex s" "error ?s' = error s"
    "\<forall>b\<in>set (transactionsTimeline ?s'). title b \<in> wrapper_title ` set (drop (Suc i) txs) \<longrightarrow> status b = Confirmed"
    by simp_all
  obtain u where u: "fst (eoa_try env (txs ! i) i s) = Inr u"
    using ok eoa_try_ok_iff[of env "txs ! i" i s] by auto
  have c1: "\<forall>a\<in>set (transactionsTimeline ?s1). title a \<in> {wrapper_title (txs ! i)} \<longrightarrow> status a = Confirmed"
    using eoa_try_confirmed[OF u] by auto
  have "\<forall>b\<in>set (transactionsTimeline ?s'). title b = wrapper_title (txs ! i) \<longrightarrow> status b = Confirmed"
  proof (cases "wrapper_title (txs ! i) \<in> wrapper_title ` set (drop (Suc i) txs)")
    case True
    with IH(3) show ?thesis by auto
  next
    case False
    then have "{wrapper_title (txs ! i)} \<inter> wrapper_title ` set (drop (Suc i) txs) = {}" by simp
    from kept_preserves[OF eoa_loop_kept c1 this] show ?thesis by simp
  qed
  with IH show ?case unfolding step using i by (auto simp: titles_drop)
qed

lemma eoa_loop_failure:
  assumes "i \<le> f" "f < length txs" "\<not> send_ok env f" "\<forall>j. i \<le> j \<and> j < f \<longrightarrow> send_ok env j"
  shows "failedTxIndex (eoa_loop env txs i s) = int f \<and>
         (\<forall>b\<in>set (transactionsTimeline (eoa_loop env txs i s)).
            title b = wrapper_title (txs ! f) \<longrightarrow> status b = Failed \<or> status b = Rejected)"
  using assms
proof (induction "f - i" arbitrary: i s)
  case 0
  then have "i = f" by simp
  with 0 have step: "eoa_loop env txs i s =
      eoa_catch (txs ! f) f (projl (fst (eoa_try env (txs ! f) f s))) (snd (eoa_try env (txs ! f) f s))"
    by (subst eoa_loop_step) simp
  show ?case unfolding step using eoa_catch_status[of _ "txs ! f" f] by (simp split: if_splits)
next
  case (Suc n)
  then have "i < f" "send_ok env i" "i < length txs" by auto
  then have step: "eoa_loop env txs i s = eoa_loop env txs (Suc i) (snd (eoa_try env (txs ! i) i s))"
    by (subst eoa_loop_step) simp
  from Suc have "n = f - Suc i" "Suc i \<le> f" "\<forall>j. Suc i \<le> j \<and> j < f \<longrightarrow> send_ok env j" by auto
  from Suc(1)[OF this(1,2) Suc.prems(2,3) this(3)] show ?case unfolding step .
qed

lemma first_failure:
  fixes i j n :: nat
  assumes "i \<le> j" "j < n" "\<not> P j"
  shows "\<exists>f. i \<le> f \<and> f < n \<and> \<not> P f \<and> (\<forall>j. i \<le> j \<and> j < f \<longrightarrow> P j)"
proof -
  let ?f = "LEAST f. i \<le> f \<and> \<not> P f"
  have ex: "i \<le> j \<and> \<not> P j" using assms by simp
  have 1: "i \<le> ?f \<and> \<not> P ?f" by (rule LeastI[of "\<lambda>f. i \<le> f \<and> \<not> P f", OF ex])
  have 2: "?f \<le> j" by (rule Least_le[of "\<lambda>f. i \<le> f \<and> \<not> P f", OF ex])
  have 3: "\<And>k. i \<le> k \<Longrightarrow> k < ?f \<Longrightarrow> P k"
    using not_less_Least[of _ "\<lambda>f. i \<le> f \<and> \<not> P f"] by blast
  from 1 2 3 assms(2) show ?thesis by (intro exI[of _ ?f]) auto
qed

lemma eoa_loop_fields [simp]:
  "isRetrying (eoa_loop env txs i s) = isRetrying s"
  "isExecutionCompleted (eoa_loop env txs i s) = isExecutionCompleted s"
  "isErrorDetailsVisible (eoa_loop env txs i s) = isErrorDetailsVisible s"
proof (induction "length txs - i" arbitrary: i s)
  case 0
  { case 1 from 0 show ?case by (subst eoa_loop_step) simp }
  { case 2 from 0 show ?case by (subst eoa_loop_step) simp }
  { case 3 from 0 show ?case by (subst eoa_loop_step) simp }
next
  case (Suc n)
  then have n: "n = length txs - Suc i" by simp
  { case 1 from Suc(1)[OF n] show ?case by (subst eoa_loop_step) simp }
  { case 2 from Suc(2)[OF n] show ?case by (subst eoa_loop_step) simp }
  { case 3 from Suc(3)[OF n] show ?case by (subst eoa_loop_step) simp }
qed

lemma assignGasLimits_ok:
  "estimates_ok res i txs \<Longrightarrow> assignGasLimits res i txs = Inr (map (with_buffer res) (enumerate i txs))"
proof (induction txs arbitrary: i)
  case Nil
  then show ?case by simp
next
  case (Cons tx txs)
  then have rest: "assignGasLimits res (Suc i) txs = Inr (map (with_buffer res) (enumerate (Suc i) txs))"
    by (simp add: estimates_ok_def)
  show ?case
  proof (cases "applyGasBuffer tx")
    case False
    with rest show ?thesis by (simp add: with_buffer_def)
  next
    case True
    with Cons.prems obtain g where g: "estimate_of res i = Some g"
      by (auto simp: estimates_ok_def)
    then have "\<exists>el. get_index res i = Inr el \<and> get_property el ''estimatedGas'' = Inr (JNum g) \<and> g > 0"
      by (auto simp: estimate_of_def split: sum.splits json.splits if_splits)
    with True rest g show ?thesis by (auto simp: with_buffer_def)
  qed
qed

lemma assignGasLimits_fails:
  "\<not> estimates_ok res i txs \<Longrightarrow> isl (assignGasLimits res i txs)"
proof (induction txs arbitrary: i)
  case Nil
  then show ?case by (simp add: estimates_ok_def)
next
  case (Cons tx txs)
  show ?case
  proof (cases "applyGasBuffer tx \<and> estimate_of res i = None")
    case True
    then show ?thesis
      by (auto simp: estimate_of_def split: sum.splits json.splits if_splits)
  next
    case False
    with Cons.prems have "\<not> estimates_ok res (Suc i) txs" by (auto simp: estimates_ok_def)
    from Cons.IH[OF this] obtain e where "assignGasLimits res (Suc i) txs = Inl e"
      by (auto simp: isl_def)
    then show ?thesis by (auto split: sum.splits json.splits)
  qed
qed

lemma without_gasLimit_fields [simp]:
  "wrapper_title (without_gasLimit tx) = wrapper_title tx"
  "transaction (without_gasLimit tx) = transaction tx"
  "applyGasBuffer (without_gasLimit tx) = applyGasBuffer tx"
  "gasLimit (without_gasLimit tx) = None"
  by (simp_all add: without_gasLimit_def TransactionWrapper.extend_def
        TransactionWrapperWithGasLimit.fields_def)

lemma with_buffer_fields [simp]:
  "wrapper_title (with_buffer res p) = wrapper_title (snd p)"
  "transaction (with_buffer res p) = transaction (snd p)"
  "applyGasBuffer (with_buffer res p) = applyGasBuffer (snd p)"
  by (simp_all add: with_buffer_def)

lemma needToSimulate_plain [simp]:
  "needToSimulate env (map without_gasLimit ws) = (\<not> isTest env \<and> list_ex applyGasBuffer ws)"
  by (simp add: needToSimulate_def list_ex_iff)

lemma simulation_request_plain [simp]:
  "simulation_request (map without_gasLimit ws) = simulation_request ws"
  by (simp add: simulation_request_def)

lemma estimate_of_pos: "estimate_of res j = Some e \<Longrightarrow> 0 < e"
  by (auto simp: estimate_of_def split: sum.splits json.splits if_splits)

text \<open>
  Rounding is exact on the quarters below \<open>2 ^ 51\<close>: a positive multiple \<open>m / 4\<close> with
  \<open>m < 2 ^ 53\<close> is a double. Hence the buffered limit of an integral estimate \<open>n\<close> with
  \<open>5 * n < 2 ^ 53\<close> is the exact ceiling of \<open>n * 5 / 4\<close>. Beyond that range the product
  is rounded before the ceiling is taken, as the third example shows (the exact ceiling
  there is \<open>2814749767106562\<close>).
\<close>

lemma round_half_even_int [simp]: "round_half_even (of_int k) = k"
  by (simp add: round_half_even_def)

lemma round_double_quarters:
  fixes m :: int
  assumes "4 \<le> m" "m < 2 ^ 53"
  shows "round_double (of_int m / 4) = Num (of_int m / 4)"
proof -
  let ?x = "of_int m / 4 :: rat"
  let ?f = "\<lfloor>?x\<rfloor>"
  have x1: "1 \<le> ?x" using assms(1) by simp
  have f: "?f = m div 4" by (simp add: floor_divide_of_int_eq[where ?'a = rat, of m 4, simplified])
  have f1: "1 \<le> ?f" using x1 by (simp add: le_floor_iff)
  have f2: "?f < 2 ^ 51" unfolding f using assms(2) by simp
  have b1: "1 \<le> bitlen ?f" using f1 by (simp add: bitlen_ge_iff_power)
  have b2: "bitlen ?f \<le> 51" using f2 bitlen_le_iff_power[of ?f 51] by simp
  define d where "d = nat (51 - bitlen ?f)"
  have E: "exponent ?x - 52 = - int (d + 2)"
    using x1 b1 b2 by (simp add: exponent_def d_def)
  have q: "max (exponent ?x - 52) (- 1074) = - int (d + 2)"
    unfolding E using b1 by (simp add: d_def)
  have "nat (int d + 2) = d + 2" by simp
  then have p: "pow2 (- int (d + 2)) = 1 / (4 * 2 ^ d)"
    by (simp add: pow2_def)
  have s: "?x / pow2 (- int (d + 2)) = of_int (m * 2 ^ d)"
    unfolding p by simp
  have r: "of_int (round_half_even (?x / pow2 (- int (d + 2)))) * pow2 (- int (d + 2)) = ?x"
    unfolding s round_half_even_int unfolding p by simp
  have big: "\<not> (2 ^ 1024 \<le> ?x)"
  proof -
    have "?x < 2 ^ 53" using assms(2) by (simp add: of_int_less_numeral_power_cancel_iff)
    also have "\<dots> \<le> (2::rat) ^ 1024" by (rule power_increasing) simp_all
    finally show ?thesis by simp
  qed
  have pos: "0 < ?x" "?x \<noteq> 0" "\<bar>?x\<bar> = ?x" using x1 by simp_all
  show ?thesis
    unfolding round_double_def Let_def pos(3) q r using pos(1,2) big by simp
qed

lemma getGasBuffer_exact:
  fixes n :: int
  assumes "0 < n" "5 * n < 2 ^ 53"
  shows "getGasBuffer (Num (of_int n)) = Num (of_int \<lceil>(of_int n :: rat) * (5 / 4)\<rceil>)"
proof -
  have e: "(of_int n :: rat) * (5 / 4) = of_int (5 * n) / 4" by simp
  have "round_double (of_int (5 * n) / 4) = Num (of_int (5 * n) / 4)"
    using assms by (intro round_double_quarters) simp_all
  then show ?thesis unfolding getGasBuffer.simps e by simp
qed

lemma getGasBuffer_examples:
  "getGasBuffer (Num 100) = Num 125"
  "getGasBuffer (Num 101) = Num 127"
  "getGasBuffer (Num (2 ^ 51 + 1)) = Num 2814749767106561"
  by code_simp+

lemma estimates_ok_iff:
  "estimates_ok res i txs =
     (\<forall>j<length txs. applyGasBuffer (txs ! j) \<longrightarrow> estimate_of res (i + j) \<noteq> None)"
proof
  assume a: "estimates_ok res i txs"
  show "\<forall>j<length txs. applyGasBuffer (txs ! j) \<longrightarrow> estimate_of res (i + j) \<noteq> None"
  proof (intro allI impI)
    fix j assume j: "j < length txs" "applyGasBuffer (txs ! j)"
    then have "(i + j, txs ! j) \<in> set (enumerate i txs)"
      by (simp add: in_set_enumerate_eq)
    with a j show "estimate_of res (i + j) \<noteq> None"
      unfolding estimates_ok_def list_all_iff by fastforce
  qed
next
  assume a: "\<forall>j<length txs. applyGasBuffer (txs ! j) \<longrightarrow> estimate_of res (i + j) \<noteq> None"
  show "estimates_ok res i txs"
    unfolding estimates_ok_def list_all_iff
  proof (intro ballI impI)
    fix p assume p: "p \<in> set (enumerate i txs)" "applyGasBuffer (snd p)"
    then have "i \<le> fst p" "fst p < length txs + i" "snd p = txs ! (fst p - i)"
      by (simp_all add: in_set_enumerate_eq)
    then have "fst p - i < length txs" "applyGasBuffer (txs ! (fst p - i))" "i + (fst p - i) = fst p"
      using p(2) by auto
    with a[rule_format, of "fst p - i"] show "estimate_of res (fst p) \<noteq> None" by simp
  qed
qed

lemma estimates_ok_plain [simp]:
  "estimates_ok res i (map without_gasLimit ws) = estimates_ok res i ws"
  by (simp add: estimates_ok_iff)

lemma handleEoa_unfold:
  "handleEoaTransactions env ws k s =
     (if \<not> isTest env \<and> list_ex applyGasBuffer ws
      then (if simulation_fails env ws
            then (Inl (GasEstimationFailed
                        (case simulate env of
                           Inl e \<Rightarrow> e
                         | Inr res \<Rightarrow> projl (assignGasLimits res 0 (map without_gasLimit ws)))),
                  emit (FetchSimulate (simulation_request ws)) s)
            else eoa_run env (resolved env ws) k (emit (FetchSimulate (simulation_request ws)) s))
      else eoa_run env (resolved env ws) k s)"
proof (cases "\<not> isTest env \<and> list_ex applyGasBuffer ws")
  case False
  then show ?thesis
    unfolding handleEoaTransactions_def Let_def
    by (auto simp: resolved_def)
next
  case need: True
  show ?thesis
  proof (cases "simulate env")
    case (Inl e)
    with need show ?thesis
      unfolding handleEoaTransactions_def Let_def
      by (simp add: simulation_fails_def)
  next
    case (Inr res)
    show ?thesis
    proof (cases "estimates_ok res 0 ws")
      case True
      then have "assignGasLimits res 0 (map without_gasLimit ws)
                 = Inr (map (with_buffer res) (enumerate 0 (map without_gasLimit ws)))"
        by (intro assignGasLimits_ok) simp
      with need Inr True show ?thesis
        unfolding handleEoaTransactions_def Let_def
        by (simp add: simulation_fails_def resolved_def)
    next
      case False
      then have "isl (assignGasLimits res 0 (map without_gasLimit ws))"
        by (intro assignGasLimits_fails) simp
      then obtain e where "assignGasLimits res 0 (map without_gasLimit ws) = Inl e"
        by (auto simp: isl_def)
      with need Inr False show ?thesis
        unfolding handleEoaTransactions_def Let_def
        by (simp add: simulation_fails_def)
    qed
  qed
qed

lemma resolved_length [simp]: "length (resolved env ws) = length ws"
  by (simp add: resolved_def split: sum.splits)

lemma resolved_titles [simp]: "map wrapper_title (resolved env ws) = map wrapper_title ws"
  by (auto simp: resolved_def enumerate_eq_zip intro!: nth_equalityI split: sum.splits)

lemma resolved_nth:
  assumes "j < length ws"
  shows "wrapper_title (resolved env ws ! j) = wrapper_title (ws ! j)"
    and "transaction (resolved env ws ! j) = transaction (ws ! j)"
    and "applyGasBuffer (resolved env ws ! j) = applyGasBuffer (ws ! j)"
  using assms by (auto simp: resolved_def nth_enumerate_eq split: sum.splits)

lemma extends_refl [simp]: "extends s s"
  by (simp add: extends_def)

lemma extends_trans: "extends s s' \<Longrightarrow> extends s' s'' \<Longrightarrow> extends s s''"
  by (auto simp: extends_def)

lemma new_events_trans:
  "extends s s' \<Longrightarrow> extends s' s'' \<Longrightarrow> new_events s s'' = new_events s s' @ new_events s' s''"
  by (auto simp: extends_def new_events_def prefix_def)

lemma new_events_same [simp]: "trace s' = trace s \<Longrightarrow> new_events s s' = []"
  by (simp add: new_events_def)

lemma extends_same [simp]: "trace s' = trace s \<Longrightarrow> extends s s'"
  by (simp add: extends_def)

lemma emit_extends [simp]: "extends s (emit ev s)"
  by (simp add: extends_def)

lemma new_events_emit [simp]: "new_events s (emit ev s) = [ev]"
  by (simp add: new_events_def)

lemma eoa_try_extends [simp]: "extends s (snd (eoa_try env tx i s))"
  unfolding eoa_try_def Let_def extends_def by (auto split: sum.splits)

lemma eoa_try_events:
  "new_events s (snd (eoa_try env tx i s)) =
     (if \<not> signer env then []
      else if isl (sendTransaction env i) then [SendTransaction i (sent_gas tx)]
      else [SendTransaction i (sent_gas tx), WaitReceipt i])"
  unfolding eoa_try_def Let_def new_events_def sent_gas_def by (auto split: sum.splits)

lemma eoa_loop_extends [simp]: "extends s (eoa_loop env txs i s)"
proof (induction "length txs - i" arbitrary: i s)
  case 0
  then show ?case by (subst eoa_loop_step) simp
next
  case (Suc n)
  then have n: "n = length txs - Suc i" by simp
  have e: "extends s (snd (eoa_try env (txs ! i) i s))" by simp
  from extends_trans[OF e Suc(1)[OF n]] e show ?case
    by (subst eoa_loop_step) (simp add: extends_def)
qed

lemma eoa_loop_events:
  "ev \<in> set (new_events s (eoa_loop env txs i s)) \<Longrightarrow>
     \<exists>j. i \<le> j \<and> j < length txs \<and> (ev = SendTransaction j (sent_gas (txs ! j)) \<or> ev = WaitReceipt j)"
proof (induction "length txs - i" arbitrary: i s)
  case 0
  then show ?case by (subst (asm) eoa_loop_step) simp
next
  case (Suc n)
  then have n: "n = length txs - Suc i" and i: "i < length txs" by simp_all
  let ?s1 = "snd (eoa_try env (txs ! i) i s)"
  show ?case
  proof (cases "send_ok env i")
    case True
    with i have step: "eoa_loop env txs i s = eoa_loop env txs (Suc i) ?s1"
      by (subst eoa_loop_step) simp
    have "new_events s (eoa_loop env txs i s) = new_events s ?s1 @ new_events ?s1 (eoa_loop env txs (Suc i) ?s1)"
      unfolding step by (rule new_events_trans) simp_all
    with Suc.prems consider "ev \<in> set (new_events s ?s1)"
      | "ev \<in> set (new_events ?s1 (eoa_loop env txs (Suc i) ?s1))" by auto
    then show ?thesis
    proof cases
      case 1
      with i show ?thesis by (auto simp: eoa_try_events split: if_splits)
    next
      case 2
      from Suc(1)[OF n 2] show ?thesis by (metis Suc_leD)
    qed
  next
    case False
    with i have step: "eoa_loop env txs i s =
        eoa_catch (txs ! i) i (projl (fst (eoa_try env (txs ! i) i s))) ?s1"
      by (subst eoa_loop_step) simp
    have "new_events s (eoa_loop env txs i s) = new_events s ?s1"
      unfolding step by (simp add: new_events_def)
    with Suc.prems i show ?thesis by (auto simp: eoa_try_events split: if_splits)
  qed
qed

lemma eoa_loop_all_ok_events:
  assumes "\<forall>j. i \<le> j \<and> j < length txs \<longrightarrow> send_ok env j"
  shows "new_events s (eoa_loop env txs i s) =
           concat (map (\<lambda>j. [SendTransaction j (sent_gas (txs ! j)), WaitReceipt j]) [i..<length txs])"
  using assms
proof (induction "length txs - i" arbitrary: i s)
  case 0
  then show ?case by (subst eoa_loop_step) simp
next
  case (Suc n)
  then have n: "n = length txs - Suc i" and i: "i < length txs" by simp_all
  with Suc.prems have ok: "send_ok env i" by simp
  let ?s1 = "snd (eoa_try env (txs ! i) i s)"
  have step: "eoa_loop env txs i s = eoa_loop env txs (Suc i) ?s1"
    using i ok by (subst eoa_loop_step) simp
  have "new_events s (eoa_loop env txs i s) = new_events s ?s1 @ new_events ?s1 (eoa_loop env txs (Suc i) ?s1)"
    unfolding step by (rule new_events_trans) simp_all
  moreover have "new_events ?s1 (eoa_loop env txs (Suc i) ?s1) =
      concat (map (\<lambda>j. [SendTransaction j (sent_gas (txs ! j)), WaitReceipt j]) [Suc i..<length txs])"
    using Suc(1)[OF n] Suc.prems by simp
  moreover have "new_events s ?s1 = [SendTransaction i (sent_gas (txs ! i)), WaitReceipt i]"
    using ok by (simp add: eoa_try_events send_ok_def)
  ultimately show ?case using i by (simp add: upt_conv_Cons)
qed

lemma eoa_run_extends [simp]: "extends s (snd (eoa_run env txs k s))"
  by (simp add: eoa_run_def eoa_undefined_iteration_def Let_def)

lemma eoa_run_events:
  "ev \<in> set (new_events s (snd (eoa_run env txs k s))) \<Longrightarrow>
     \<exists>j. k \<le> int j \<and> j < length txs \<and> (ev = SendTransaction j (sent_gas (txs ! j)) \<or> ev = WaitReceipt j)"
  by (auto simp: eoa_run_def eoa_undefined_iteration_def Let_def split: if_splits
        dest!: eoa_loop_events)

lemma sent_gas_resolved:
  assumes "j < length ws"
  shows "sent_gas (resolved env ws ! j) =
     (if \<not> isTest env \<and> applyGasBuffer (ws ! j)
      then (case simulate env of
              Inl e \<Rightarrow> tx_gasLimit (transaction (ws ! j))
            | Inr res \<Rightarrow> Some (getGasBuffer (Num (the (estimate_of res j)))))
      else tx_gasLimit (transaction (ws ! j)))"
proof -
  have "applyGasBuffer (ws ! j) \<Longrightarrow> list_ex applyGasBuffer ws"
    using assms by (auto simp: list_ex_iff)
  then show ?thesis
    using assms
    by (auto simp: sent_gas_def resolved_def nth_enumerate_eq with_buffer_def split: sum.splits)
qed

lemma handleEoa_extends [simp]: "extends s (snd (handleEoaTransactions env ws k s))"
proof -
  have "extends s (snd (eoa_run env txs k (emit ev s)))" for txs ev
    by (rule extends_trans[OF emit_extends eoa_run_extends])
  then show ?thesis by (simp add: handleEoa_unfold)
qed

lemma handleEoa_events:
  assumes "ev \<in> set (new_events s (snd (handleEoaTransactions env ws k s)))"
  shows "ev = FetchSimulate (simulation_request ws) \<and> \<not> isTest env \<and> list_ex applyGasBuffer ws \<or>
         \<not> (\<not> isTest env \<and> list_ex applyGasBuffer ws \<and> simulation_fails env ws) \<and>
         (\<exists>j. k \<le> int j \<and> j < length ws \<and>
            (ev = SendTransaction j (sent_gas (resolved env ws ! j)) \<or> ev = WaitReceipt j))"
proof (cases "\<not> isTest env \<and> list_ex applyGasBuffer ws")
  case False
  with assms have "ev \<in> set (new_events s (snd (eoa_run env (resolved env ws) k s)))"
    by (auto simp: handleEoa_unfold)
  from eoa_run_events[OF this] False show ?thesis by auto
next
  case need: True
  let ?s1 = "emit (FetchSimulate (simulation_request ws)) s"
  show ?thesis
  proof (cases "simulation_fails env ws")
    case True
    with need assms show ?thesis by (simp add: handleEoa_unfold)
  next
    case False
    with need have eq: "handleEoaTransactions env ws k s = eoa_run env (resolved env ws) k ?s1"
      by (simp add: handleEoa_unfold)
    have "new_events s (snd (eoa_run env (resolved env ws) k ?s1)) =
            new_events s ?s1 @ new_events ?s1 (snd (eoa_run env (resolved env ws) k ?s1))"
      by (rule new_events_trans) simp_all
    with assms eq consider "ev = FetchSimulate (simulation_request ws)"
      | "ev \<in> set (new_events ?s1 (snd (eoa_run env (resolved env ws) k ?s1)))" by auto
    then show ?thesis
    proof cases
      case 1 with need show ?thesis by simp
    next
      case 2
      from eoa_run_events[OF 2] False show ?thesis by auto
    qed
  qed
qed

lemma executeTransactions_unfold:
  assumes "address env = Some a" "before env = None" "transactions env = Inr ws"
  shows "executeTransactions env k s =
     (if safe env
      then (case handleSafeAppTransactions env ws (entry_state env k ws s) of
              (Inl e, s4) \<Rightarrow> (Inl e, s4)
            | (Inr response, s4) \<Rightarrow>
                if has_failure s4 then (Inr (), s4)
                else (case finalize_safe env response s4 of
                        (Inl e, s5) \<Rightarrow> (Inl e, s5)
                      | (Inr u, s5) \<Rightarrow> (Inr (), complete s5)))
      else (case handleEoaTransactions env ws k (entry_state env k ws s) of
              (Inl e, s4) \<Rightarrow> (Inl e, s4)
            | (Inr u, s4) \<Rightarrow>
                if has_failure s4 then (Inr (), s4)
                else (Inr (), complete (finalize_eoa env ws s4))))"
  using assms unfolding executeTransactions_def entry_state_def Let_def by simp

lemma recalculate_fields [simp]:
  "isRetrying (recalculateTimelineStatuses k s) = False"
  "failedTxIndex (recalculateTimelineStatuses k s) = - 1"
  "isErrorDetailsVisible (recalculateTimelineStatuses k s) = False"
  "error (recalculateTimelineStatuses k s) = None"
  "isExecutionCompleted (recalculateTimelineStatuses k s) = isExecutionCompleted s"
  "trace (recalculateTimelineStatuses k s) = trace s"
  "contractReceipts (recalculateTimelineStatuses k s) = contractReceipts s"
  by (simp_all add: recalculateTimelineStatuses_def)

lemma init_fields [simp]:
  "isRetrying (initTransactionsTimelineItems ws b s) = isRetrying s"
  "failedTxIndex (initTransactionsTimelineItems ws b s) = failedTxIndex s"
  "isErrorDetailsVisible (initTransactionsTimelineItems ws b s) = isErrorDetailsVisible s"
  "error (initTransactionsTimelineItems ws b s) = error s"
  "isExecutionCompleted (initTransactionsTimelineItems ws b s) = isExecutionCompleted s"
  "trace (initTransactionsTimelineItems ws b s) = trace s"
  "contractReceipts (initTransactionsTimelineItems ws b s) = contractReceipts s"
  by (simp_all add: initTransactionsTimelineItems_def)

lemma entry_state_events [simp]:
  "new_events s (entry_state env k ws s) = [AwaitBefore, AwaitTransactions]"
  "extends s (entry_state env k ws s)"
  by (simp_all add: entry_state_def Let_def new_events_def extends_def)

lemma entry_state_completed [simp]:
  "isExecutionCompleted (entry_state env k ws s) = isExecutionCompleted s"
  by (simp add: entry_state_def Let_def)

lemma entry_state_failedTxIndex [simp]: "failedTxIndex (entry_state env k ws s) = - 1"
  by (simp add: entry_state_def Let_def)

lemma handleSafe_not_single:
  assumes "length ws \<noteq> 1"
  shows "handleSafeAppTransactions env ws s =
           (Inl (if safe_simulation_ok env
                 then AssertionFailed (Some ''Expected only one transaction in Safe mode.'')
                 else SafeGasEstimationFailed),
            emit (FetchSimulate (simulation_request ws)) s)"
  using assms unfolding handleSafeAppTransactions_def safe_simulation_ok_def Let_def
  by (auto split: sum.splits)

lemma init_statuses:
  "map status (transactionsTimeline (initTransactionsTimelineItems ws b s)) =
     map (\<lambda>i. if i = 0 then AwaitingSignature else AwaitingPrevious) [0..<length ws]"
  by (auto simp: initTransactionsTimelineItems_def enumerate_eq_zip intro!: nth_equalityI)

lemma init_titles:
  "map title (transactionsTimeline (initTransactionsTimelineItems ws b s)) = map wrapper_title ws"
  by (auto simp: initTransactionsTimelineItems_def enumerate_eq_zip intro!: nth_equalityI)

lemma recalculate_empty:
  "transactionsTimeline s = [] \<Longrightarrow> transactionsTimeline (recalculateTimelineStatuses k s) = []"
  by (simp add: recalculateTimelineStatuses_def)

lemma entry_state_first:
  "transactionsTimeline s = [] \<Longrightarrow>
     transactionsTimeline (entry_state env k ws s) =
       transactionsTimeline (initTransactionsTimelineItems ws (safe env) s)"
  by (simp add: entry_state_def Let_def recalculate_empty initTransactionsTimelineItems_def)

lemma eoa_run_kept:
  "0 \<le> k \<Longrightarrow> list_all2 (kept (wrapper_title ` set (drop (nat k) txs))) (transactionsTimeline s)
     (transactionsTimeline (snd (eoa_run env txs k s)))"
  by (simp add: eoa_run_def eoa_loop_kept)

lemma handleEoa_ok:
  assumes "isTest env \<or> \<not> list_ex applyGasBuffer ws \<or> \<not> simulation_fails env ws" "0 \<le> k"
  shows "\<exists>s1. handleEoaTransactions env ws k s = (Inr (), eoa_loop env (resolved env ws) (nat k) s1) \<and>
           transactionsTimeline s1 = transactionsTimeline s \<and> failedTxIndex s1 = failedTxIndex s \<and>
           error s1 = error s \<and> isRetrying s1 = isRetrying s \<and>
           isExecutionCompleted s1 = isExecutionCompleted s \<and>
           isErrorDetailsVisible s1 = isErrorDetailsVisible s \<and> extends s s1"
proof (cases "\<not> isTest env \<and> list_ex applyGasBuffer ws")
  case True
  with assms show ?thesis
    by (intro exI[of _ "emit (FetchSimulate (simulation_request ws)) s"])
       (simp add: handleEoa_unfold eoa_run_def)
next
  case False
  with assms show ?thesis
    by (intro exI[of _ s]) (auto simp: handleEoa_unfold eoa_run_def)
qed

lemma resolved_title_set [simp]:
  "wrapper_title ` set (drop k (resolved env ws)) = wrapper_title ` set (drop k ws)"
proof -
  have "set (map wrapper_title (drop k (resolved env ws))) = set (map wrapper_title (drop k ws))"
    unfolding drop_map[symmetric] by simp
  then show ?thesis by simp
qed

lemma resolved_title_set_all [simp]:
  "wrapper_title ` set (resolved env ws) = wrapper_title ` set ws"
  using resolved_title_set[of 0 env ws] by simp

lemma all_status_replicate:
  "(\<forall>b\<in>set xs. status b = st) \<Longrightarrow> map status xs = replicate (length xs) st"
  by (induction xs) simp_all

lemma finalize_eoa_timeline:
  "transactionsTimeline (finalize_eoa env ws s) =
     (let n = length (transactionsTimeline s)
      in if n = 0 \<or> length ws < n then transactionsTimeline s
         else map (\<lambda>item. if title item = wrapper_title (ws ! (n - 1))
                           then (if after env = None
                                 then item\<lparr>status := Confirmed, message := ''Transaction confirmed''\<rparr>
                                 else item\<lparr>status := Finalizing,
                                           message := ''Transaction confirmed. '' @
                                             (case duringAfterMsg env of
                                                None \<Rightarrow> ''Wrapping up...'' | Some m \<Rightarrow> m)\<rparr>)
                           else item)
                (transactionsTimeline s))"
  unfolding finalize_eoa_def Let_def
  by (auto simp: updateTransactionTimelineStatus_def apply_updates_def split: option.splits)

lemma finalize_eoa_kept:
  "list_all2 (kept (wrapper_title ` set (drop (length (transactionsTimeline s) - 1) ws)))
     (transactionsTimeline s) (transactionsTimeline (finalize_eoa env ws s))"
proof (cases "length (transactionsTimeline s) = 0 \<or> length ws < length (transactionsTimeline s)")
  case True
  then show ?thesis by (auto simp: finalize_eoa_timeline Let_def kept_refl)
next
  case False
  then have "0 < length (transactionsTimeline s)" "length (transactionsTimeline s) \<le> length ws"
    by simp_all
  then have "length (transactionsTimeline s) - 1 < length ws" by arith
  from titles_drop[OF this]
  have "wrapper_title (ws ! (length (transactionsTimeline s) - 1))
      \<in> wrapper_title ` set (drop (length (transactionsTimeline s) - 1) ws)"
    by simp
  with False show ?thesis
    by (auto simp: finalize_eoa_timeline Let_def list_all2_map2 list_all2_same kept_def)
qed

lemma finalize_eoa_fields [simp]:
  "isRetrying (finalize_eoa env ws s) = isRetrying s"
  "failedTxIndex (finalize_eoa env ws s) = failedTxIndex s"
  "isExecutionCompleted (finalize_eoa env ws s) = isExecutionCompleted s"
  "isErrorDetailsVisible (finalize_eoa env ws s) = isErrorDetailsVisible s"
  "error (finalize_eoa env ws s) = error s"
  unfolding finalize_eoa_def Let_def by (auto split: option.splits)

lemma complete_fields [simp]:
  "isRetrying (complete s) = False"
  "isExecutionCompleted (complete s) = True"
  "failedTxIndex (complete s) = failedTxIndex s"
  "error (complete s) = error s"
  "transactionsTimeline (complete s) = transactionsTimeline s"
  "trace (complete s) = trace s"
  by (simp_all add: complete_def)

lemma has_failure_iff:
  "has_failure s = (\<exists>b\<in>set (transactionsTimeline s).
      status b = Failed \<or> status b = Rejected \<or> status b = Retrying)"
  by (simp add: has_failure_def list_ex_iff)

lemma entry_state_titles_first:
  "transactionsTimeline s = [] \<Longrightarrow>
     map title (transactionsTimeline (entry_state env k ws s)) = map wrapper_title ws"
  by (simp add: entry_state_first init_titles)

lemma eoa_first_attempt_ok:
  assumes "transactionsTimeline s = []" "address env = Some a" "before env = None"
    "transactions env = Inr ws" "\<not> safe env" "eoa_no_failure env ws"
  shows "\<exists>s'. executeTransactions env 0 s = (Inr (), s') \<and>
           map title (transactionsTimeline s') = map wrapper_title ws \<and>
           map status (transactionsTimeline s') = replicate (length ws) Confirmed \<and>
           isExecutionCompleted s'"
proof -
  let ?s3 = "entry_state env 0 ws s"
  from assms(6) have sim: "isTest env \<or> \<not> list_ex applyGasBuffer ws \<or> \<not> simulation_fails env ws"
    and ok: "\<forall>j. 0 \<le> j \<and> j < length (resolved env ws) \<longrightarrow> send_ok env j"
    and after: "after env = None"
    by (auto simp: eoa_no_failure_def list_all_iff)
  from handleEoa_ok[OF sim, of 0 ?s3] obtain s1 where
    h: "handleEoaTransactions env ws 0 ?s3 = (Inr (), eoa_loop env (resolved env ws) 0 s1)"
    and s1: "transactionsTimeline s1 = transactionsTimeline ?s3"
    by auto
  let ?s4 = "eoa_loop env (resolved env ws) 0 s1"
  have t3: "map title (transactionsTimeline ?s3) = map wrapper_title ws"
    using assms(1) by (rule entry_state_titles_first)
  have t4: "map title (transactionsTimeline ?s4) = map wrapper_title ws"
    using kept_titles[OF eoa_loop_kept[of 0 "resolved env ws" s1 env]] s1 t3 by simp
  have "\<forall>b\<in>set (transactionsTimeline ?s4).
           title b \<in> wrapper_title ` set (drop 0 (resolved env ws)) \<longrightarrow> status b = Confirmed"
    using eoa_loop_all_ok[OF ok, of s1] by blast
  moreover have "title b \<in> wrapper_title ` set (drop 0 (resolved env ws))"
    if "b \<in> set (transactionsTimeline ?s4)" for b
  proof -
    from that have "title b \<in> set (map title (transactionsTimeline ?s4))" by simp
    then have "title b \<in> set (map wrapper_title ws)" by (simp only: t4)
    then show ?thesis by simp
  qed
  ultimately have c4: "\<forall>b\<in>set (transactionsTimeline ?s4). status b = Confirmed" by blast
  then have nf: "\<not> has_failure ?s4" by (auto simp: has_failure_iff)
  let ?s' = "complete (finalize_eoa env ws ?s4)"
  have run: "executeTransactions env 0 s = (Inr (), ?s')"
    using assms(5) h nf by (simp add: executeTransactions_unfold[OF assms(2,3,4)])
  have c5: "\<forall>b\<in>set (transactionsTimeline ?s'). status b = Confirmed"
    using c4 after by (auto simp: finalize_eoa_timeline Let_def)
  have t5: "map title (transactionsTimeline ?s') = map wrapper_title ws"
    using kept_titles[OF finalize_eoa_kept[of ?s4 ws env]] t4 by simp
  from t5 have "length (transactionsTimeline ?s') = length ws" by (rule map_eq_imp_length_eq)
  with all_status_replicate[OF c5] have "map status (transactionsTimeline ?s') = replicate (length ws) Confirmed"
    by simp
  with run t5 show ?thesis by (intro exI[of _ ?s']) simp
qed

lemma handleSafe_single_ok:
  assumes "length ws = 1" "safe_simulation_ok env" "safe_txs ws = Some txs" "safeSend env = Inr r"
  shows "\<exists>g. handleSafeAppTransactions env ws s =
           (Inr (Some r),
            updateTransactionTimelineStatus (hd ws)
              \<lparr>upd_status = Some SubmittedToSafe,
               upd_message = Some ''Transaction submitted to Safe'',
               upd_etherscanUrl = None\<rparr>
              (emit (SafeSend txs g) (emit (FetchSimulate (simulation_request ws)) s)))"
  using assms unfolding handleSafeAppTransactions_def safe_simulation_ok_def Let_def
  by (auto split: sum.splits)

lemma finalize_safe_ok:
  assumes "afterSafe env = None \<or> afterSafe env = Some None"
  shows "\<exists>s'. finalize_safe env (Some r) s = (Inr (), s') \<and>
           transactionsTimeline s' = transactionsTimeline s"
  using assms unfolding finalize_safe_def Let_def by auto

lemma safe_first_attempt_ok:
  assumes "transactionsTimeline s = []" "address env = Some a" "before env = None"
    "transactions env = Inr ws" "safe env" "safe_no_failure env ws"
  shows "\<exists>s'. executeTransactions env 0 s = (Inr (), s') \<and>
           map title (transactionsTimeline s') = map wrapper_title ws \<and>
           map status (transactionsTimeline s') = [SubmittedToSafe] \<and>
           isExecutionCompleted s'"
proof -
  let ?s3 = "entry_state env 0 ws s"
  from assms(6) obtain txs r where
    one: "length ws = 1" and sim: "safe_simulation_ok env" and txs: "safe_txs ws = Some txs"
    and r: "safeSend env = Inr r" and af: "afterSafe env = None \<or> afterSafe env = Some None"
    by (cases "safeSend env") (auto simp: safe_no_failure_def)
  from one obtain w where ws: "ws = [w]" by (cases ws) auto
  from handleSafe_single_ok[OF one sim txs r, of ?s3] obtain s4 where
    h: "handleSafeAppTransactions env ws ?s3 = (Inr (Some r), s4)"
    and t4: "transactionsTimeline s4 =
       map (\<lambda>item. if title item = wrapper_title (hd ws)
                    then apply_updates \<lparr>upd_status = Some SubmittedToSafe,
                           upd_message = Some ''Transaction submitted to Safe'',
                           upd_etherscanUrl = None\<rparr> item
                    else item) (transactionsTimeline ?s3)"
    by (auto simp: updateTransactionTimelineStatus_def)
  have t3: "map title (transactionsTimeline ?s3) = [wrapper_title w]"
    using entry_state_titles_first[OF assms(1), of env 0 ws] ws by simp
  then obtain it where it: "transactionsTimeline ?s3 = [it]" "title it = wrapper_title w"
    by auto
  with t4 ws have s4: "map status (transactionsTimeline s4) = [SubmittedToSafe]"
    "map title (transactionsTimeline s4) = [wrapper_title w]"
    by simp_all
  then have nf: "\<not> has_failure s4"
    by (auto simp: has_failure_iff) 
  from finalize_safe_ok[OF af, of r s4] obtain s5 where
    f: "finalize_safe env (Some r) s4 = (Inr (), s5)"
       "transactionsTimeline s5 = transactionsTimeline s4" by blast
  have "executeTransactions env 0 s = (Inr (), complete s5)"
    using assms(5) h nf f by (simp add: executeTransactions_unfold[OF assms(2,3,4)])
  with s4 f(2) ws show ?thesis
    by (intro exI[of _ "complete s5"]) simp
qed

lemma safe_not_single_fails:
  assumes "address env = Some a" "before env = None" "transactions env = Inr ws" "safe env"
    "length ws \<noteq> 1"
  shows "isl (fst (executeTransactions env k s))"
  using assms(4) by (simp add: executeTransactions_unfold[OF assms(1,2,3)] handleSafe_not_single[OF assms(5)])

lemma example_failed_state_view:
  "failedTxIndex example_failed_state = 1"
  "map status (transactionsTimeline example_failed_state) = [Confirmed, Rejected]"
  "map title (transactionsTimeline example_failed_state) = [''A'', ''B'']"
  "isRetrying example_failed_state = False"
  "isExecutionCompleted example_failed_state = False"
  "length (trace example_failed_state) = 6"
  by (simp_all add: example_failed_state_def example_rejecting_env_def model_defs)

lemma kept_mono: "list_all2 (kept T1) xs ys \<Longrightarrow> T1 \<subseteq> T \<Longrightarrow> list_all2 (kept T) xs ys"
  using kept_trans[OF _ kept_refl, of T1 xs ys T1 T] by simp

lemma handleEoa_kept:
  assumes "0 \<le> k"
  shows "list_all2 (kept (wrapper_title ` set (drop (nat k) ws))) (transactionsTimeline s)
           (transactionsTimeline (snd (handleEoaTransactions env ws k s)))"
proof -
  have "list_all2 (kept (wrapper_title ` set (drop (nat k) ws))) (transactionsTimeline s1)
          (transactionsTimeline (snd (eoa_run env (resolved env ws) k s1)))" for s1
    using eoa_run_kept[OF assms, of "resolved env ws" s1 env] by simp
  from this[of s] this[of "emit (FetchSimulate (simulation_request ws)) s"]
  show ?thesis by (auto simp: handleEoa_unfold kept_refl)
qed

lemma handleSafe_kept:
  "list_all2 (kept (if length ws = 1 then {wrapper_title (hd ws)} else {})) (transactionsTimeline s)
     (transactionsTimeline (snd (handleSafeAppTransactions env ws s)))"
  unfolding handleSafeAppTransactions_def Let_def
  by (auto split: sum.splits option.splits simp: kept_refl
        simp: updateTransactionTimelineStatus_def list_all2_map2 list_all2_same kept_def)

lemma handleSafe_extends [simp]: "extends s (snd (handleSafeAppTransactions env ws s))"
  unfolding handleSafeAppTransactions_def Let_def extends_def
  by (auto split: sum.splits option.splits)

lemma handleSafe_events:
  "ev \<in> set (new_events s (snd (handleSafeAppTransactions env ws s))) \<Longrightarrow>
     ev = FetchSimulate (simulation_request ws) \<or>
     (\<exists>txs g. ev = SafeSend txs g \<and> length ws = 1 \<and> safe_txs ws = Some txs)"
  unfolding handleSafeAppTransactions_def Let_def new_events_def
  by (auto split: sum.splits option.splits if_splits)

lemma safe_txs_length: "safe_txs ws = Some txs \<Longrightarrow> length txs = length ws"
  by (auto simp: safe_txs_def split: if_splits)

lemma finalize_safe_frame [simp]:
  "transactionsTimeline (snd (finalize_safe env r s)) = transactionsTimeline s"
  "extends s (snd (finalize_safe env r s))"
  unfolding finalize_safe_def Let_def extends_def by (auto split: option.splits)

lemma finalize_safe_events:
  "ev \<in> set (new_events s (snd (finalize_safe env r s))) \<Longrightarrow> submitted ev = []"
  unfolding finalize_safe_def Let_def new_events_def by (auto split: option.splits)

lemma finalize_eoa_extends [simp]: "extends s (finalize_eoa env ws s)"
  unfolding finalize_eoa_def Let_def extends_def by (auto split: option.splits)

lemma finalize_eoa_events:
  "ev \<in> set (new_events s (finalize_eoa env ws s)) \<Longrightarrow> submitted ev = []"
  unfolding finalize_eoa_def Let_def new_events_def by (auto split: option.splits if_splits)

lemma complete_frame [simp]: "extends s (complete s)" "new_events s (complete s) = []"
  by (simp_all add: extends_def new_events_def)

lemma new_events_complete [simp]: "new_events s (complete s') = new_events s s'"
  by (simp add: new_events_def)

lemma extends_complete [simp]: "extends s (complete s') = extends s s'"
  by (simp add: extends_def)

lemma recalculate_length [simp]:
  "length (transactionsTimeline (recalculateTimelineStatuses k s)) = length (transactionsTimeline s)"
  by (simp add: recalculateTimelineStatuses_def)

lemma recalculate_nth:
  assumes "j < length (transactionsTimeline s)"
  shows "transactionsTimeline (recalculateTimelineStatuses k s) ! j =
     (if status (transactionsTimeline s ! j) = Confirmed then transactionsTimeline s ! j
      else if int j = k
           then (transactionsTimeline s ! j)\<lparr>status := Retrying, message := ''Preparing to retry...''\<rparr>
           else (transactionsTimeline s ! j)\<lparr>status := AwaitingPrevious,
                                           message := ''Waiting on previous transaction''\<rparr>)"
  using assms by (simp add: recalculateTimelineStatuses_def nth_enumerate_eq)

lemma entry_state_retry:
  assumes "failedTxIndex s \<noteq> - 1" "transactionsTimeline s \<noteq> []"
  shows "entry_state env k ws s =
           emit AwaitTransactions
             (emit AwaitBefore ((recalculateTimelineStatuses k s)\<lparr>contractReceipts := []\<rparr>))"
proof -
  have "transactionsTimeline (recalculateTimelineStatuses k s) \<noteq> []"
    using assms(2) recalculate_length[of k s] by (metis length_0_conv)
  with assms(1) show ?thesis by (simp add: entry_state_def Let_def)
qed

lemma attempt_frame:
  assumes hooks: "address env = Some a" "before env = None" "transactions env = Inr ws"
    and k: "0 \<le> k" "k < int (length ws)"
    and len: "length (transactionsTimeline (entry_state env k ws s)) = length ws"
  shows "list_all2 (kept (wrapper_title ` set (drop (nat k) ws)))
           (transactionsTimeline (entry_state env k ws s))
           (transactionsTimeline (snd (executeTransactions env k s))) \<and>
         extends (entry_state env k ws s) (snd (executeTransactions env k s)) \<and>
         (\<forall>ev\<in>set (new_events (entry_state env k ws s) (snd (executeTransactions env k s))).
            \<forall>j\<in>set (submitted ev). k \<le> int j)"
proof (cases "safe env")
  case True
  let ?s3 = "entry_state env k ws s"
  let ?T = "wrapper_title ` set (drop (nat k) ws)"
  obtain r4 s4 where h: "handleSafeAppTransactions env ws ?s3 = (r4, s4)" by force
  have sub: "(if length ws = 1 then {wrapper_title (hd ws)} else {}) \<subseteq> ?T"
  proof (cases "length ws = 1")
    case one: True
    then obtain w where "ws = [w]" by (cases ws) auto
    moreover from one k have "nat k = 0" by simp
    ultimately show ?thesis by simp
  qed simp
  have k4: "list_all2 (kept ?T) (transactionsTimeline ?s3) (transactionsTimeline s4)"
    using kept_mono[OF handleSafe_kept sub, of ?s3 env] h by simp
  have e4: "extends ?s3 s4" using handleSafe_extends[of ?s3 env ws] h by simp
  have ev4: "\<forall>ev\<in>set (new_events ?s3 s4). \<forall>j\<in>set (submitted ev). k \<le> int j"
  proof (intro ballI)
    fix ev j assume "ev \<in> set (new_events ?s3 s4)" "j \<in> set (submitted ev)"
    with handleSafe_events[of ev ?s3 env ws] h
    obtain txs g where "ev = SafeSend txs g" "length ws = 1" "safe_txs ws = Some txs" by auto
    with k show "k \<le> int j" by simp
  qed
  show ?thesis
  proof (cases "\<exists>resp. r4 = Inr resp \<and> \<not> has_failure s4")
    case False
    then have "snd (executeTransactions env k s) = s4"
      using True h by (cases r4) (auto simp: executeTransactions_unfold[OF hooks])
    with k4 e4 ev4 show ?thesis by simp
  next
    case fin: True
    then obtain resp where resp: "r4 = Inr resp" "\<not> has_failure s4" by blast
    obtain r5 s5 where f: "finalize_safe env resp s4 = (r5, s5)" by force
    then have s5: "s5 = snd (finalize_safe env resp s4)" by simp
    have s': "snd (executeTransactions env k s) = s5 \<or> snd (executeTransactions env k s) = complete s5"
      using True h resp f by (cases r5) (auto simp: executeTransactions_unfold[OF hooks])
    have t5: "transactionsTimeline s5 = transactionsTimeline s4" unfolding s5 by simp
    have e45: "extends s4 s5" unfolding s5 by simp
    have e5: "extends ?s3 s5" by (rule extends_trans[OF e4 e45])
    have "new_events ?s3 s5 = new_events ?s3 s4 @ new_events s4 s5"
      by (rule new_events_trans[OF e4 e45])
    with ev4 have ev5: "\<forall>ev\<in>set (new_events ?s3 s5). \<forall>j\<in>set (submitted ev). k \<le> int j"
      unfolding s5 by (auto dest: finalize_safe_events)
    from s' k4 e5 ev5 t5 show ?thesis by auto
  qed
next
  case False
  let ?s3 = "entry_state env k ws s"
  let ?T = "wrapper_title ` set (drop (nat k) ws)"
  obtain r4 s4 where h: "handleEoaTransactions env ws k ?s3 = (r4, s4)" by force
  have k4: "list_all2 (kept ?T) (transactionsTimeline ?s3) (transactionsTimeline s4)"
    using handleEoa_kept[OF k(1), of ws ?s3 env] h by simp
  have e4: "extends ?s3 s4" using handleEoa_extends[of ?s3 env ws k] h by simp
  have ev4: "\<forall>ev\<in>set (new_events ?s3 s4). \<forall>j\<in>set (submitted ev). k \<le> int j"
  proof (intro ballI)
    fix ev j assume "ev \<in> set (new_events ?s3 s4)" "j \<in> set (submitted ev)"
    with handleEoa_events[of ev ?s3 env ws k] h show "k \<le> int j" by auto
  qed
  show ?thesis
  proof (cases "\<exists>u. r4 = Inr u \<and> \<not> has_failure s4")
    case False
    then have "snd (executeTransactions env k s) = s4"
      using \<open>\<not> safe env\<close> h by (cases r4) (auto simp: executeTransactions_unfold[OF hooks])
    with k4 e4 ev4 show ?thesis by simp
  next
    case fin: True
    let ?s5 = "finalize_eoa env ws s4"
    have s': "snd (executeTransactions env k s) = complete ?s5"
      using \<open>\<not> safe env\<close> h fin by (auto simp: executeTransactions_unfold[OF hooks])
    have l4: "length (transactionsTimeline s4) = length ws"
      using kept_titles[OF k4] len by (metis length_map)
    with k have "nat k \<le> length (transactionsTimeline s4) - 1" by simp
    then have "wrapper_title ` set (drop (length (transactionsTimeline s4) - 1) ws) \<subseteq> ?T"
      by (intro image_mono set_drop_subset_set_drop)
    from kept_mono[OF finalize_eoa_kept this]
    have "list_all2 (kept ?T) (transactionsTimeline s4) (transactionsTimeline ?s5)" .
    from kept_trans[OF k4 this, of ?T]
    have k5: "list_all2 (kept ?T) (transactionsTimeline ?s3) (transactionsTimeline ?s5)" by simp
    have e5: "extends ?s3 ?s5" by (rule extends_trans[OF e4]) simp
    have "new_events ?s3 ?s5 = new_events ?s3 s4 @ new_events s4 ?s5"
      by (rule new_events_trans[OF e4]) simp
    with ev4 have ev5: "\<forall>ev\<in>set (new_events ?s3 ?s5). \<forall>j\<in>set (submitted ev). k \<le> int j"
      by (auto dest: finalize_eoa_events)
    from k5 e5 ev5 show ?thesis unfolding s' by simp
  qed
qed

lemma distinct_title_not_later:
  assumes "distinct (map f xs)" "j < n" "n \<le> length xs"
  shows "f (xs ! j) \<notin> f ` set (drop n xs)"
proof
  assume "f (xs ! j) \<in> f ` set (drop n xs)"
  then obtain x where x: "x \<in> set (drop n xs)" "f x = f (xs ! j)" by auto
  then obtain i where i: "i < length (drop n xs)" "drop n xs ! i = x"
    by (auto simp: in_set_conv_nth)
  with assms(3) have ni: "n + i < length xs" "xs ! (n + i) = x" by simp_all
  have jl: "j < length xs" using assms(2,3) by simp
  from x(2) ni jl have "map f xs ! (n + i) = map f xs ! j" by simp
  moreover have "n + i < length (map f xs)" "j < length (map f xs)" using ni(1) jl by simp_all
  ultimately have "n + i = j"
    using assms(1) nth_eq_iff_index_eq by blast
  with assms(2) show False by simp
qed

lemma kept_nth:
  assumes "list_all2 (kept T) xs ys" "j < length xs" "title (xs ! j) \<notin> T"
  shows "ys ! j = xs ! j"
  using assms by (auto simp: list_all2_conv_all_nth kept_def)

lemma retry_example_events:
  "new_events example_failed_state (snd (retryFailedTransaction example_env example_failed_state)) =
     [AwaitBefore, AwaitTransactions,
      FetchSimulate [(Some ''0xto'', Some ''0xdata''), (Some ''0xto'', Some ''0xdata'')],
      SendTransaction 1 (Some (Num 21000)), WaitReceipt 1, CallAfter [''0xr'']]"
  by code_simp

lemma retry_example_guard:
  "map (try_again_disabled \<circ> snd)
     (drop (length (trace example_failed_state))
        (trace (snd (retryFailedTransaction example_env example_failed_state)))) =
     [False, False, False, False, False, False]"
  by code_simp

lemma retry_example_rendered:
  "map (try_again_rendered \<circ> snd)
     (drop (length (trace example_failed_state))
        (trace (snd (retryFailedTransaction example_env example_failed_state)))) =
     [False, False, False, False, False, False]"
  by code_simp

lemma retry_example_before:
  "try_again_rendered example_failed_state \<and> \<not> try_again_disabled example_failed_state"
  by code_simp

lemma recalculate_rel:
  "list_all2 (\<lambda>a b. title b = title a \<and> (status a = Confirmed \<longrightarrow> b = a))
     (transactionsTimeline s) (transactionsTimeline (recalculateTimelineStatuses k s))"
  by (auto simp: list_all2_conv_all_nth recalculate_nth)

lemma entry_state_timeline:
  "transactionsTimeline (entry_state env k ws s) =
     (if transactionsTimeline s = []
      then transactionsTimeline (initTransactionsTimelineItems ws (safe env) s)
      else if failedTxIndex s \<noteq> - 1 then transactionsTimeline (recalculateTimelineStatuses k s)
      else transactionsTimeline s)"
proof (cases "transactionsTimeline s = []")
  case True
  then show ?thesis by (simp add: entry_state_first)
next
  case False
  then have "transactionsTimeline (recalculateTimelineStatuses k s) \<noteq> []"
    using recalculate_length[of k s] by (metis length_0_conv)
  with False show ?thesis by (simp add: entry_state_def Let_def)
qed

lemma entry_state_covered:
  assumes "covered ws k s"
  shows "0 \<le> k \<or> transactionsTimeline (entry_state env k ws s) \<noteq> []"
    and "map title (transactionsTimeline (entry_state env k ws s)) = map wrapper_title ws"
    and "\<forall>b\<in>set (transactionsTimeline (entry_state env k ws s)).
           title b \<in> wrapper_title ` set (drop (nat k) ws) \<or> status b = Confirmed"
proof -
  show "0 \<le> k \<or> transactionsTimeline (entry_state env k ws s) \<noteq> []"
  proof (cases "transactionsTimeline s = []")
    case True
    with assms show ?thesis by (auto simp: covered_def)
  next
    case False
    then have "transactionsTimeline (recalculateTimelineStatuses k s) \<noteq> []"
      using recalculate_length[of k s] by (metis length_0_conv)
    with False show ?thesis by (simp add: entry_state_timeline)
  qed
  show "map title (transactionsTimeline (entry_state env k ws s)) = map wrapper_title ws"
  proof (cases "transactionsTimeline s = []")
    case True
    then show ?thesis by (simp add: entry_state_titles_first)
  next
    case False
    with assms have t: "map title (transactionsTimeline s) = map wrapper_title ws"
      by (auto simp: covered_def)
    have "map title (transactionsTimeline (recalculateTimelineStatuses k s)) = map title (transactionsTimeline s)"
      using recalculate_rel[of s k] by (auto simp: list_all2_conv_all_nth intro!: nth_equalityI)
    with False t show ?thesis by (simp add: entry_state_timeline)
  qed
  show "\<forall>b\<in>set (transactionsTimeline (entry_state env k ws s)).
           title b \<in> wrapper_title ` set (drop (nat k) ws) \<or> status b = Confirmed"
  proof (cases "transactionsTimeline s = []")
    case True
    with assms have k0: "nat k = 0 \<or> ws = []" by (auto simp: covered_def)
    have "set (map title (transactionsTimeline (entry_state env k ws s))) = set (map wrapper_title ws)"
      using True by (simp only: entry_state_titles_first)
    then have "title ` set (transactionsTimeline (entry_state env k ws s)) = wrapper_title ` set ws"
      by simp
    then have "\<forall>b\<in>set (transactionsTimeline (entry_state env k ws s)). title b \<in> wrapper_title ` set ws"
      by blast
    with k0 show ?thesis by auto
  next
    case False
    with assms have c: "\<forall>b\<in>set (transactionsTimeline s).
        title b \<in> wrapper_title ` set (drop (nat k) ws) \<or> status b = Confirmed"
      by (auto simp: covered_def list_all_iff)
    show ?thesis
    proof (cases "failedTxIndex s \<noteq> - 1")
      case no: False
      with False c show ?thesis by (simp add: entry_state_timeline)
    next
      case True
      show ?thesis
      proof
        fix b assume "b \<in> set (transactionsTimeline (entry_state env k ws s))"
        with False True have "b \<in> set (transactionsTimeline (recalculateTimelineStatuses k s))"
          by (simp add: entry_state_timeline)
        then obtain j where j: "j < length (transactionsTimeline s)"
          "transactionsTimeline (recalculateTimelineStatuses k s) ! j = b"
          by (auto simp: in_set_conv_nth)
        let ?a = "transactionsTimeline s ! j"
        from recalculate_rel[of s k] j have r: "title b = title ?a" "status ?a = Confirmed \<longrightarrow> b = ?a"
          by (auto simp: list_all2_conv_all_nth)
        from j(1) c have "title ?a \<in> wrapper_title ` set (drop (nat k) ws) \<or> status ?a = Confirmed"
          by simp
        with r show "title b \<in> wrapper_title ` set (drop (nat k) ws) \<or> status b = Confirmed"
          by auto
      qed
    qed
  qed
qed

lemma handleEoa_completed [simp]:
  "isExecutionCompleted (snd (handleEoaTransactions env ws k s)) = isExecutionCompleted s"
  by (simp add: handleEoa_unfold eoa_run_def eoa_undefined_iteration_def Let_def)

lemma handleSafe_completed [simp]:
  "isExecutionCompleted (snd (handleSafeAppTransactions env ws s)) = isExecutionCompleted s"
  unfolding handleSafeAppTransactions_def Let_def by (auto split: sum.splits option.splits)

lemma finalize_safe_fields [simp]:
  "isExecutionCompleted (snd (finalize_safe env r s)) = isExecutionCompleted s"
  "failedTxIndex (snd (finalize_safe env r s)) = failedTxIndex s"
  unfolding finalize_safe_def Let_def by (auto split: option.splits)

lemma eoa_loop_no_failure:
  assumes titles: "map title (transactionsTimeline s) = map wrapper_title txs"
    and nf: "\<not> has_failure (eoa_loop env txs i s)"
  shows "\<forall>j. i \<le> j \<and> j < length txs \<longrightarrow> send_ok env j"
proof (rule ccontr)
  assume "\<not> (\<forall>j. i \<le> j \<and> j < length txs \<longrightarrow> send_ok env j)"
  then obtain j where "i \<le> j" "j < length txs" "\<not> send_ok env j" by blast
  from first_failure[where P = "send_ok env", OF this] obtain f where f: "i \<le> f" "f < length txs" "\<not> send_ok env f"
    "\<forall>j. i \<le> j \<and> j < f \<longrightarrow> send_ok env j" by blast
  let ?s' = "eoa_loop env txs i s"
  from eoa_loop_failure[OF f, of s] have st:
    "\<forall>b\<in>set (transactionsTimeline ?s'). title b = wrapper_title (txs ! f) \<longrightarrow>
        status b = Failed \<or> status b = Rejected" by blast
  have t': "map title (transactionsTimeline ?s') = map wrapper_title txs"
    using kept_titles[OF eoa_loop_kept[of i txs s env]] titles by simp
  then have l: "f < length (transactionsTimeline ?s')" using f(2) by (metis length_map)
  with t' have "title (transactionsTimeline ?s' ! f) = wrapper_title (txs ! f)"
    by (metis f(2) nth_map)
  with st l have "status (transactionsTimeline ?s' ! f) = Failed \<or>
      status (transactionsTimeline ?s' ! f) = Rejected" by simp
  with l have "has_failure ?s'" by (auto simp: has_failure_iff)
  with nf show False by contradiction
qed

lemma finalize_eoa_dispatch:
  assumes "after env = Some e" "length (transactionsTimeline s) \<le> length ws"
  shows "DispatchResultFailure e \<in> set (new_events s (finalize_eoa env ws s))"
  using assms unfolding finalize_eoa_def Let_def new_events_def by auto

lemma eoa_completion:
  assumes hooks: "address env = Some a" "before env = None" "transactions env = Inr ws"
    and mode: "\<not> safe env" and cov: "covered ws k s"
    and before: "\<not> isExecutionCompleted s"
    and after: "isExecutionCompleted (snd (executeTransactions env k s))"
  shows "(after env = None \<longrightarrow>
            list_all (\<lambda>b. status b = Confirmed)
              (transactionsTimeline (snd (executeTransactions env k s)))) \<and>
         (\<forall>e. after env = Some e \<longrightarrow>
            list_all (\<lambda>b. status b = (if title b = wrapper_title (ws ! (length ws - 1))
                                       then Finalizing else Confirmed))
              (transactionsTimeline (snd (executeTransactions env k s))) \<and>
            DispatchResultFailure e \<in> set (new_events s (snd (executeTransactions env k s)))) \<and>
         failedTxIndex (snd (executeTransactions env k s)) = - 1 \<and>
         \<not> has_failure (snd (executeTransactions env k s))"
proof -
  let ?s3 = "entry_state env k ws s"
  let ?T = "wrapper_title ` set (drop (nat k) ws)"
  note c3 = entry_state_covered[OF cov]
  obtain r4 s4 where h: "handleEoaTransactions env ws k ?s3 = (r4, s4)" by force
  have comp4: "\<not> isExecutionCompleted s4"
    using handleEoa_completed[of env ws k ?s3] h before by simp
  have path: "(\<exists>u. r4 = Inr u) \<and> \<not> has_failure s4"
  proof (rule ccontr)
    assume "\<not> ((\<exists>u. r4 = Inr u) \<and> \<not> has_failure s4)"
    then have "snd (executeTransactions env k s) = s4"
      using mode h by (cases r4) (auto simp: executeTransactions_unfold[OF hooks])
    with after comp4 show False by simp
  qed
  then have s': "snd (executeTransactions env k s) = complete (finalize_eoa env ws s4)"
    using mode h by (auto simp: executeTransactions_unfold[OF hooks])
  have sim: "isTest env \<or> \<not> list_ex applyGasBuffer ws \<or> \<not> simulation_fails env ws"
    using path h by (auto simp: handleEoa_unfold split: if_splits)
  have k0: "0 \<le> k"
  proof (rule ccontr)
    assume "\<not> 0 \<le> k"
    with c3(1)[of env] have "k < 0" "transactionsTimeline ?s3 \<noteq> []" by auto
    then have "isl (fst (handleEoaTransactions env ws k ?s3))"
      by (simp add: handleEoa_unfold eoa_run_def eoa_undefined_iteration_def)
    with h path show False by auto
  qed
  from handleEoa_ok[OF sim k0, of ?s3] h obtain s1 where
    s4: "s4 = eoa_loop env (resolved env ws) (nat k) s1"
    and s1: "transactionsTimeline s1 = transactionsTimeline ?s3" "failedTxIndex s1 = failedTxIndex ?s3"
      "extends ?s3 s1"
    by auto
  have t1: "map title (transactionsTimeline s1) = map wrapper_title (resolved env ws)"
    using c3(2) s1(1) by simp
  have "\<not> has_failure (eoa_loop env (resolved env ws) (nat k) s1)"
    using path s4 by simp
  from eoa_loop_no_failure[OF t1 this]
  have ok: "\<forall>j. nat k \<le> j \<and> j < length (resolved env ws) \<longrightarrow> send_ok env j" .
  from eoa_loop_all_ok[OF ok, of s1] s4 have
    f4: "failedTxIndex s4 = - 1"
    and conf: "\<forall>b\<in>set (transactionsTimeline s4). title b \<in> ?T \<longrightarrow> status b = Confirmed"
    by (simp_all add: s1(2))
  have k14: "list_all2 (kept ?T) (transactionsTimeline s1) (transactionsTimeline s4)"
    using eoa_loop_kept[of "nat k" "resolved env ws" s1 env] s4 by simp
  have all4: "\<forall>b\<in>set (transactionsTimeline s4). status b = Confirmed"
  proof
    fix b assume b: "b \<in> set (transactionsTimeline s4)"
    show "status b = Confirmed"
    proof (cases "title b \<in> ?T")
      case True
      with conf b show ?thesis by simp
    next
      case False
      from b obtain j where j: "j < length (transactionsTimeline s4)"
        "transactionsTimeline s4 ! j = b" by (auto simp: in_set_conv_nth)
      from k14 j have jl: "j < length (transactionsTimeline s1)"
        and kj: "kept ?T (transactionsTimeline s1 ! j) b"
        by (auto simp: list_all2_conv_all_nth)
      with False have "b = transactionsTimeline s1 ! j" by (auto simp: kept_def)
      with jl have "b \<in> set (transactionsTimeline ?s3)" by (simp add: s1(1))
      with c3(3) False show ?thesis by auto
    qed
  qed
  have l4: "length (transactionsTimeline s4) = length ws"
    using kept_titles[OF k14] t1 by (metis length_map resolved_length)
  have e4: "extends s s4"
  proof -
    have "extends s1 s4" unfolding s4 by simp
    from extends_trans[OF s1(3) this] have "extends ?s3 s4" .
    from extends_trans[OF _ this] show ?thesis by simp
  qed
  have ev: "new_events s (finalize_eoa env ws s4) =
      new_events s s4 @ new_events s4 (finalize_eoa env ws s4)"
    by (rule new_events_trans[OF e4 finalize_eoa_extends])
  have disp: "DispatchResultFailure e \<in> set (new_events s (finalize_eoa env ws s4))"
    if "after env = Some e" for e
    using finalize_eoa_dispatch[OF that, of s4 ws] l4 by (simp add: ev)
  have A: "after env = None \<longrightarrow>
      list_all (\<lambda>b. status b = Confirmed) (transactionsTimeline (complete (finalize_eoa env ws s4)))"
    using all4 by (auto simp: finalize_eoa_timeline Let_def list_all_iff)
  have B: "\<forall>e. after env = Some e \<longrightarrow>
      list_all (\<lambda>b. status b = (if title b = wrapper_title (ws ! (length ws - 1))
                                 then Finalizing else Confirmed))
        (transactionsTimeline (complete (finalize_eoa env ws s4))) \<and>
      DispatchResultFailure e \<in> set (new_events s (complete (finalize_eoa env ws s4)))"
    using all4 disp l4 by (auto simp: finalize_eoa_timeline Let_def list_all_iff)
  have C: "failedTxIndex (complete (finalize_eoa env ws s4)) = - 1" using f4 by simp
  have D: "\<not> has_failure (complete (finalize_eoa env ws s4))"
    using all4 by (auto simp: has_failure_iff finalize_eoa_timeline Let_def)
  from A B C D show ?thesis unfolding s' by blast
qed

lemma handleSafe_Inr_single:
  assumes "handleSafeAppTransactions env ws s = (Inr resp, s4)"
    and "transactionsTimeline s = [it]" "title it = wrapper_title (hd ws)"
  shows "(\<exists>r. safeSend env = Inr r \<and> resp = Some r \<and>
              map status (transactionsTimeline s4) = [SubmittedToSafe] \<and>
              failedTxIndex s4 = failedTxIndex s) \<or>
         has_failure s4"
  using assms unfolding handleSafeAppTransactions_def Let_def
  by (auto split: sum.splits option.splits if_splits
        simp: updateTransactionTimelineStatus_def has_failure_def)

lemma handleSafe_Inr_length:
  "handleSafeAppTransactions env ws s = (Inr resp, s4) \<Longrightarrow> length ws = 1"
  unfolding handleSafeAppTransactions_def Let_def
  by (auto split: sum.splits option.splits if_splits)

lemma finalize_safe_dispatch:
  "afterSafe env = Some (Some e) \<Longrightarrow>
     DispatchResultFailure e \<in> set (new_events s (snd (finalize_safe env (Some r) s)))"
  unfolding finalize_safe_def Let_def new_events_def by simp

lemma safe_completion:
  assumes hooks: "address env = Some a" "before env = None" "transactions env = Inr ws"
    and mode: "safe env" and cov: "covered ws k s"
    and before: "\<not> isExecutionCompleted s"
    and after: "isExecutionCompleted (snd (executeTransactions env k s))"
  shows "map status (transactionsTimeline (snd (executeTransactions env k s))) = [SubmittedToSafe] \<and>
         (\<forall>e. afterSafe env = Some (Some e) \<longrightarrow>
            DispatchResultFailure e \<in> set (new_events s (snd (executeTransactions env k s)))) \<and>
         failedTxIndex (snd (executeTransactions env k s)) = - 1"
proof -
  let ?s3 = "entry_state env k ws s"
  note c3 = entry_state_covered[OF cov]
  obtain r4 s4 where h: "handleSafeAppTransactions env ws ?s3 = (r4, s4)" by force
  have comp4: "\<not> isExecutionCompleted s4"
    using handleSafe_completed[of env ws ?s3] h before by simp
  have e4: "extends s s4"
  proof -
    have "extends s ?s3" by simp
    moreover have "extends ?s3 s4" using handleSafe_extends[of ?s3 env ws] h by simp
    ultimately show ?thesis by (rule extends_trans)
  qed
  have path: "\<exists>resp. r4 = Inr resp \<and> \<not> has_failure s4"
  proof (rule ccontr)
    assume "\<not> (\<exists>resp. r4 = Inr resp \<and> \<not> has_failure s4)"
    then have "snd (executeTransactions env k s) = s4"
      using mode h by (cases r4) (auto simp: executeTransactions_unfold[OF hooks])
    with after comp4 show False by simp
  qed
  then obtain resp where resp: "r4 = Inr resp" "\<not> has_failure s4" by blast
  from handleSafe_Inr_length h resp(1) have one: "length ws = 1" by blast
  then obtain w where ws: "ws = [w]" by (cases ws) auto
  from c3(2)[of env] ws obtain it where it: "transactionsTimeline ?s3 = [it]"
    "title it = wrapper_title (hd ws)" by auto
  have h': "handleSafeAppTransactions env ws ?s3 = (Inr resp, s4)" using h resp(1) by simp
  from handleSafe_Inr_single[OF h' it] resp(2) obtain r where
    r: "safeSend env = Inr r" "resp = Some r"
      "map status (transactionsTimeline s4) = [SubmittedToSafe]"
      "failedTxIndex s4 = - 1"
    by auto
  obtain r5 s5 where f: "finalize_safe env resp s4 = (r5, s5)" by force
  then have s5: "s5 = snd (finalize_safe env (Some r) s4)" using r(2) by simp
  have comp5: "\<not> isExecutionCompleted s5" unfolding s5 using comp4 by simp
  have s': "snd (executeTransactions env k s) = complete s5"
  proof (rule ccontr)
    assume "snd (executeTransactions env k s) \<noteq> complete s5"
    then have "snd (executeTransactions env k s) = s5"
      using mode h resp f by (cases r5) (auto simp: executeTransactions_unfold[OF hooks])
    with after comp5 show False by simp
  qed
  have t5: "transactionsTimeline s5 = transactionsTimeline s4" unfolding s5 by simp
  have f5: "failedTxIndex s5 = - 1" unfolding s5 using r(4) by simp
  have e45: "extends s4 s5" unfolding s5 by simp
  have ev: "new_events s s5 = new_events s s4 @ new_events s4 s5"
    by (rule new_events_trans[OF e4 e45])
  have disp: "DispatchResultFailure e \<in> set (new_events s s5)" if "afterSafe env = Some (Some e)" for e
    using finalize_safe_dispatch[OF that, of s4 r] unfolding ev s5[symmetric] by simp
  from t5 f5 disp r(3) show ?thesis unfolding s' by simp
qed

section \<open>The claims\<close>

text \<open>
  C5 (the code departs from the claim). In multisig mode with one wrapper, let the simulation
  service answer with the aligned list \<open>[{estimatedGas: 100}]\<close>. The claim asks for
  \<open>ceil(100 * 1.25) = 125\<close> as the gas parameter of the submit call. The executor reads
  \<open>estimatedGas\<close> from the list itself, not from its first element; that is
  \<open>undefined\<close>, and the gas parameter of the submit call is \<open>NaN\<close>.
\<close>

theorem safe_gas_parameter_example:
  "new_events initial_state (snd (onMount example_safe_env initial_state)) =
     [AwaitBefore, AwaitTransactions, FetchSimulate [(Some ''0xto'', Some ''0xdata'')],
      SafeSend [(''0xto'', ''0xdata'')] NaN]"
  by (simp add: model_defs)

text \<open>
  C4 (the code departs from the claim). In multisig mode, when the user rejects the single
  transaction, the item is marked \<open>rejected\<close> but \<open>failedTxIndex\<close> stays \<open>-1\<close>: the
  assignment \<open>failedTxIndex = 0\<close> sits inside the branch of the non-rejection failure.
  When the submission fails for another reason the index is recorded, as it is for both
  outcomes in the direct-signing path.
\<close>

theorem safe_rejection_example:
  "map status (transactionsTimeline (snd (onMount
       (example_safe_env\<lparr>safeSend := Inl (Thrown ''User rejected transaction'')\<rparr>) initial_state)))
     = [Rejected] \<and>
   failedTxIndex (snd (onMount
       (example_safe_env\<lparr>safeSend := Inl (Thrown ''User rejected transaction'')\<rparr>) initial_state))
     = - 1 \<and>
   map status (transactionsTimeline (snd (onMount
       (example_safe_env\<lparr>safeSend := Inl (Thrown ''execution reverted'')\<rparr>) initial_state)))
     = [Failed] \<and>
   failedTxIndex (snd (onMount
       (example_safe_env\<lparr>safeSend := Inl (Thrown ''execution reverted'')\<rparr>) initial_state))
     = 0 \<and>
   failedTxIndex example_failed_state = 1"
  by (simp add: model_defs example_failed_state_def example_rejecting_env_def)

text \<open>
  C10. The ``Back'' action is disabled by \<open>!!failedTxIndex\<close>, so it is enabled exactly
  when \<open>failedTxIndex\<close> is \<open>0\<close>: it is disabled in the initial state, where the index is
  \<open>-1\<close>, disabled after the loop recorded a failure at an index \<open>i + 1\<close>, and enabled
  after it recorded a failure at index \<open>0\<close>.
\<close>

theorem back_enabled_iff_failedTxIndex_zero:
  "((\<not> back_disabled s) = (failedTxIndex s = 0)) \<and>
   back_disabled initial_state \<and>
   back_disabled (eoa_catch executingTx (Suc i) e s') \<and>
   \<not> back_disabled (eoa_catch executingTx 0 e s')"
  by (simp add: back_disabled_def truthy_def initial_state_def eoa_catch_def)

text \<open>
  C7. In the direct-signing path, whenever the transaction of the wrapper at index \<open>j\<close> is
  sent with gas limit \<open>g\<close>: if the wrapper is flagged \<open>applyGasBuffer\<close> (and the step does
  not run in test mode, where no simulation is made), the simulation answered, its element
  \<open>j\<close> carries a positive number \<open>e\<close> as \<open>estimatedGas\<close>, and \<open>g\<close> is the value of
  \<open>Math.ceil(e * 1.25)\<close>, which is the exact ceiling of \<open>e * 5 / 4\<close> whenever \<open>e\<close> is an
  integer with \<open>5 * e < 2 ^ 53\<close>; if the wrapper is not flagged (or the step runs in test
  mode), \<open>g\<close> is the limit its transaction declares. An estimate of 100 gives 125, and 101
  gives 127.
\<close>

theorem eoa_gas_limit_sent:
  assumes "SendTransaction j g \<in> set (new_events s (snd (handleEoaTransactions env ws k s)))"
  shows "j < length ws \<and>
     (applyGasBuffer (ws ! j) \<and> \<not> isTest env \<longrightarrow>
        (\<exists>res e. simulate env = Inr res \<and> estimate_of res j = Some e \<and> 0 < e \<and>
                 g = Some (getGasBuffer (Num e)) \<and>
                 (\<forall>n. e = of_int n \<and> 5 * n < 2 ^ 53 \<longrightarrow>
                        g = Some (Num (of_int \<lceil>e * (5 / 4)\<rceil>))))) \<and>
     (\<not> applyGasBuffer (ws ! j) \<or> isTest env \<longrightarrow> g = tx_gasLimit (transaction (ws ! j))) \<and>
     getGasBuffer (Num 100) = Num 125 \<and> getGasBuffer (Num 101) = Num 127"
proof -
  from handleEoa_events[OF assms] have
    nf: "\<not> (\<not> isTest env \<and> list_ex applyGasBuffer ws \<and> simulation_fails env ws)"
    and j: "j < length ws" and g: "g = sent_gas (resolved env ws ! j)"
    by auto
  have flagged: "applyGasBuffer (ws ! j) \<Longrightarrow> list_ex applyGasBuffer ws"
    using j by (auto simp: list_ex_iff)
  have 1: "\<exists>res e. simulate env = Inr res \<and> estimate_of res j = Some e \<and> 0 < e \<and>
                 g = Some (getGasBuffer (Num e)) \<and>
                 (\<forall>n. e = of_int n \<and> 5 * n < 2 ^ 53 \<longrightarrow>
                        g = Some (Num (of_int \<lceil>e * (5 / 4)\<rceil>)))"
    if f: "applyGasBuffer (ws ! j)" "\<not> isTest env"
  proof -
    from nf f flagged have "\<not> simulation_fails env ws" by simp
    then obtain res where res: "simulate env = Inr res" "estimates_ok res 0 ws"
      by (auto simp: simulation_fails_def split: sum.splits)
    with j f obtain e where e: "estimate_of res j = Some e"
      by (auto simp: estimates_ok_iff)
    then have pos: "0 < e" by (rule estimate_of_pos)
    from res e f j g have sent: "g = Some (getGasBuffer (Num e))"
      by (simp add: sent_gas_resolved)
    have exact: "g = Some (Num (of_int \<lceil>e * (5 / 4)\<rceil>))"
      if n: "e = of_int n \<and> 5 * n < 2 ^ 53" for n :: int
    proof -
      from n pos have "0 < n" by simp
      with n getGasBuffer_exact[of n] sent show ?thesis by simp
    qed
    from res(1) e pos sent exact show ?thesis by blast
  qed
  have 2: "g = tx_gasLimit (transaction (ws ! j))" if "\<not> applyGasBuffer (ws ! j) \<or> isTest env"
    using that g j by (auto simp: sent_gas_resolved)
  have 3: "getGasBuffer (Num 100) = Num 125 \<and> getGasBuffer (Num 101) = Num 127"
    by (simp add: getGasBuffer_examples)
  from j 1 2 3 show ?thesis by blast
qed

theorem eoa_gas_limit_sent_witness:
  "SendTransaction 0 (Some (Num 125))
     \<in> set (new_events initial_state
              (snd (handleEoaTransactions example_env
                      [example_wrapper ''A'' True, example_wrapper ''B'' False] 0 initial_state))) \<and>
   (0::nat) < length [example_wrapper ''A'' True, example_wrapper ''B'' False] \<and>
   (\<exists>res e. simulate example_env = Inr res \<and> estimate_of res 0 = Some e \<and> 0 < e \<and>
            Some (Num 125) = Some (getGasBuffer (Num e))) \<and>
   SendTransaction 1 (Some (Num 21000))
     \<in> set (new_events initial_state
              (snd (handleEoaTransactions example_env
                      [example_wrapper ''A'' True, example_wrapper ''B'' False] 0 initial_state))) \<and>
   Some (Num 21000) = tx_gasLimit (transaction ([example_wrapper ''A'' True, example_wrapper ''B'' False] ! 1))"
proof -
  let ?ws = "[example_wrapper ''A'' True, example_wrapper ''B'' False]"
  let ?evs = "new_events initial_state (snd (handleEoaTransactions example_env ?ws 0 initial_state))"
  have a: "SendTransaction 0 (Some (Num 125)) \<in> set ?evs"
    by code_simp
  have b: "SendTransaction 1 (Some (Num 21000)) \<in> set ?evs"
    by code_simp
  have fa: "applyGasBuffer (?ws ! 0) \<and> \<not> isTest example_env"
    by (simp add: example_wrapper_def example_env_def)
  have nb: "\<not> applyGasBuffer (?ws ! 1) \<or> isTest example_env"
    by (simp add: example_wrapper_def)
  from eoa_gas_limit_sent[OF a] have 1: "(0::nat) < length ?ws" by (rule conjunct1)
  from mp[OF conjunct1[OF conjunct2[OF eoa_gas_limit_sent[OF a]]] fa]
  have 3: "\<exists>res e. simulate example_env = Inr res \<and> estimate_of res 0 = Some e \<and> 0 < e \<and>
            Some (Num 125) = Some (getGasBuffer (Num e))"
    by blast
  from mp[OF conjunct1[OF conjunct2[OF conjunct2[OF eoa_gas_limit_sent[OF b]]]] nb]
  have 2: "Some (Num 21000) = tx_gasLimit (transaction (?ws ! 1))" .
  from a 1 3 b 2 show ?thesis by (intro conjI)
qed

text \<open>
  C3 fails as stated. In a multisig session with the two wrappers \<open>A\<close> and \<open>B\<close> the
  attempt ends with the invariant error, but the request to the simulation service has been
  issued before.
\<close>

theorem safe_two_wrappers_counterexample:
  "new_events initial_state (snd (onMount (example_env\<lparr>safe := True\<rparr>) initial_state)) =
     [AwaitBefore, AwaitTransactions,
      FetchSimulate [(Some ''0xto'', Some ''0xdata''), (Some ''0xto'', Some ''0xdata'')]] \<and>
   fst (onMount (example_env\<lparr>safe := True\<rparr>) initial_state) =
     Inl (AssertionFailed (Some ''Expected only one transaction in Safe mode.''))"
  by (simp add: model_defs)

text \<open>
  C3, as the code has it. In multisig mode with a wrapper list of more than one element the
  attempt fails and nothing is submitted to the multisig backend, but the simulation request
  is issued first: the calls of the attempt are the two hooks and one simulation request.
  When the simulation answers, the failure is the invariant error; when the simulation call
  fails, it is the gas-estimation error.
\<close>

theorem safe_many_wrappers_fail_after_simulation:
  assumes "safe env" "address env = Some a" "before env = None" "transactions env = Inr ws"
    and "1 < length ws"
  shows "\<exists>s'. executeTransactions env k s =
            (Inl (if safe_simulation_ok env
                  then AssertionFailed (Some ''Expected only one transaction in Safe mode.'')
                  else SafeGasEstimationFailed), s') \<and>
          new_events s s' = [AwaitBefore, AwaitTransactions, FetchSimulate (simulation_request ws)] \<and>
          transactionsTimeline s' = transactionsTimeline (entry_state env k ws s) \<and>
          isExecutionCompleted s' = isExecutionCompleted s"
proof -
  let ?s3 = "entry_state env k ws s"
  let ?s' = "emit (FetchSimulate (simulation_request ws)) ?s3"
  from assms(5) have n: "length ws \<noteq> 1" by simp
  have ev: "new_events s ?s' = new_events s ?s3 @ new_events ?s3 ?s'"
    by (rule new_events_trans) simp_all
  show ?thesis
    by (rule exI[of _ ?s'])
       (simp add: executeTransactions_unfold[OF assms(2,3,4)] assms(1) handleSafe_not_single[OF n] ev)
qed

theorem safe_many_wrappers_fail_after_simulation_witness:
  "safe (example_env\<lparr>safe := True\<rparr>) \<and>
   1 < length [example_wrapper ''A'' True, example_wrapper ''B'' False] \<and>
   (\<exists>s'. executeTransactions (example_env\<lparr>safe := True\<rparr>) 0 initial_state =
            (Inl (AssertionFailed (Some ''Expected only one transaction in Safe mode.'')), s') \<and>
          new_events initial_state s' =
            [AwaitBefore, AwaitTransactions,
             FetchSimulate [(Some ''0xto'', Some ''0xdata''), (Some ''0xto'', Some ''0xdata'')]])"
proof -
  let ?env = "example_env\<lparr>safe := True\<rparr>"
  let ?ws = "[example_wrapper ''A'' True, example_wrapper ''B'' False]"
  have h: "safe ?env" "address ?env = Some ''0xme''" "before ?env = None"
    "transactions ?env = Inr ?ws" "1 < length ?ws"
    by (simp_all add: example_env_def)
  have ok: "safe_simulation_ok ?env"
    by (simp add: safe_simulation_ok_def example_env_def)
  have req: "simulation_request ?ws =
      [(Some ''0xto'', Some ''0xdata''), (Some ''0xto'', Some ''0xdata'')]"
    by (simp add: simulation_request_def example_wrapper_def)
  from safe_many_wrappers_fail_after_simulation[OF h, of 0 initial_state] ok req h(1,5)
  show ?thesis by auto
qed

text \<open>
  C8 fails as stated. On a first attempt in a direct-signing session whose simulation call
  fails, the attempt aborts with the gas-estimation error, yet item 0 of the timeline has
  status \<open>awaitingSignature\<close>: the initialisation of the timeline, which precedes the
  executor, has set it.
\<close>

theorem simulation_failure_counterexample:
  "fst (onMount (example_env\<lparr>simulate := Inl (Thrown ''Network error'')\<rparr>) initial_state) =
     Inl (GasEstimationFailed (Thrown ''Network error'')) \<and>
   map status (transactionsTimeline
      (snd (onMount (example_env\<lparr>simulate := Inl (Thrown ''Network error'')\<rparr>) initial_state))) =
     [AwaitingSignature, AwaitingPrevious]"
  by (simp add: model_defs)

text \<open>
  C8, as the code has it. In a direct-signing attempt that makes the simulation call (some
  wrapper is flagged and the step is not in test mode), when the call fails or the
  response lacks a positive numeric \<open>estimatedGas\<close> for a flagged wrapper, the attempt
  aborts with the gas-estimation error before the executor marks any item or submits any
  transaction: the only calls are the two hooks and the simulation request, the timeline is
  as the initialisation (or the reset of a retry) left it, and \<open>failedTxIndex\<close> is \<open>-1\<close>.
  On a first attempt the timeline is therefore the initial one, whose item 0 is
  \<open>awaitingSignature\<close>.
\<close>

theorem simulation_failure_aborts:
  assumes "\<not> safe env" "address env = Some a" "before env = None" "transactions env = Inr ws"
    and "\<not> isTest env" "list_ex applyGasBuffer ws" "simulation_fails env ws"
  shows "\<exists>e s'. executeTransactions env k s = (Inl (GasEstimationFailed e), s') \<and>
          new_events s s' = [AwaitBefore, AwaitTransactions, FetchSimulate (simulation_request ws)] \<and>
          transactionsTimeline s' = transactionsTimeline (entry_state env k ws s) \<and>
          failedTxIndex s' = - 1 \<and>
          isExecutionCompleted s' = isExecutionCompleted s \<and>
          (transactionsTimeline s = [] \<longrightarrow>
             map status (transactionsTimeline s') =
               map (\<lambda>i. if i = 0 then AwaitingSignature else AwaitingPrevious) [0..<length ws])"
proof -
  let ?s3 = "entry_state env k ws s"
  let ?s' = "emit (FetchSimulate (simulation_request ws)) ?s3"
  let ?e = "case simulate env of Inl e \<Rightarrow> e
            | Inr res \<Rightarrow> projl (assignGasLimits res 0 (map without_gasLimit ws))"
  have run: "executeTransactions env k s = (Inl (GasEstimationFailed ?e), ?s')"
    using assms by (simp add: executeTransactions_unfold[OF assms(2,3,4)] handleEoa_unfold)
  have ev: "new_events s ?s' = new_events s ?s3 @ new_events ?s3 ?s'"
    by (rule new_events_trans) simp_all
  have first: "transactionsTimeline s = [] \<longrightarrow>
      map status (transactionsTimeline ?s') =
        map (\<lambda>i. if i = 0 then AwaitingSignature else AwaitingPrevious) [0..<length ws]"
    by (simp add: entry_state_first init_statuses)
  from run ev first show ?thesis
    by (intro exI[of _ ?e] exI[of _ ?s']) simp
qed

theorem simulation_failure_aborts_witness:
  "\<not> safe (example_env\<lparr>simulate := Inl (Thrown ''Network error'')\<rparr>) \<and>
   simulation_fails (example_env\<lparr>simulate := Inl (Thrown ''Network error'')\<rparr>)
     [example_wrapper ''A'' True, example_wrapper ''B'' False] \<and>
   (\<exists>e s'. executeTransactions (example_env\<lparr>simulate := Inl (Thrown ''Network error'')\<rparr>) 0
              initial_state = (Inl (GasEstimationFailed e), s') \<and>
           failedTxIndex s' = - 1 \<and>
           map status (transactionsTimeline s') = [AwaitingSignature, AwaitingPrevious])"
proof -
  let ?env = "example_env\<lparr>simulate := Inl (Thrown ''Network error'')\<rparr>"
  let ?ws = "[example_wrapper ''A'' True, example_wrapper ''B'' False]"
  have h: "\<not> safe ?env" "address ?env = Some ''0xme''" "before ?env = None"
    "transactions ?env = Inr ?ws" "\<not> isTest ?env" "list_ex applyGasBuffer ?ws"
    "simulation_fails ?env ?ws"
    by (simp_all add: example_env_def example_wrapper_def simulation_fails_def)
  have e: "transactionsTimeline initial_state = []"
    by (simp add: initial_state_def)
  have u: "map (\<lambda>i. if i = 0 then AwaitingSignature else AwaitingPrevious) [0..<length ?ws]
             = [AwaitingSignature, AwaitingPrevious]"
    by (simp add: upt_rec)
  from simulation_failure_aborts[OF h, of 0 initial_state] obtain e' s' where r:
    "executeTransactions ?env 0 initial_state = (Inl (GasEstimationFailed e'), s')"
    "failedTxIndex s' = - 1"
    "transactionsTimeline initial_state = [] \<longrightarrow>
       map status (transactionsTimeline s') =
         map (\<lambda>i. if i = 0 then AwaitingSignature else AwaitingPrevious) [0..<length ?ws]"
    by blast
  from r(3) e u have st: "map status (transactionsTimeline s') = [AwaitingSignature, AwaitingPrevious]"
    by simp
  show ?thesis
    using h(1,7) r(1,2) st by (intro conjI exI[of _ e'] exI[of _ s'])
qed

text \<open>
  C1. Start from a state whose timeline is not yet initialised and let the hooks resolve to
  the wrapper list \<open>ws\<close>. In direct-signing mode, when the simulation (if one is needed),
  every submission, every confirmation and the \<open>after\<close> hook succeed, the attempt returns
  with a timeline of \<open>length ws\<close> items carrying the wrappers' titles in wrapper order, all
  \<open>confirmed\<close>. In multisig mode, when the simulation, the submission and the
  \<open>afterSafe\<close> hook succeed for the single wrapper, the attempt returns with exactly one
  item, \<open>submittedToSafe\<close>; with any other number of wrappers the multisig attempt does
  not return normally, so a multisig run without failure has exactly one item.
\<close>

theorem no_failure_timeline:
  assumes "transactionsTimeline s = []" "address env = Some a" "before env = None"
    "transactions env = Inr ws"
  shows "(\<not> safe env \<and> eoa_no_failure env ws \<longrightarrow>
            (\<exists>s'. executeTransactions env 0 s = (Inr (), s') \<and>
                  map title (transactionsTimeline s') = map wrapper_title ws \<and>
                  map status (transactionsTimeline s') = replicate (length ws) Confirmed \<and>
                  isExecutionCompleted s')) \<and>
         (safe env \<and> safe_no_failure env ws \<longrightarrow>
            (\<exists>s'. executeTransactions env 0 s = (Inr (), s') \<and>
                  map title (transactionsTimeline s') = map wrapper_title ws \<and>
                  map status (transactionsTimeline s') = [SubmittedToSafe] \<and>
                  isExecutionCompleted s')) \<and>
         (safe env \<and> length ws \<noteq> 1 \<longrightarrow> isl (fst (executeTransactions env 0 s)))"
  using eoa_first_attempt_ok[OF assms] safe_first_attempt_ok[OF assms]
    safe_not_single_fails[OF assms(2,3,4)]
  by blast

theorem no_failure_timeline_witness:
  "(\<exists>s'. executeTransactions example_env 0 initial_state = (Inr (), s') \<and>
         map title (transactionsTimeline s') = [''A'', ''B''] \<and>
         map status (transactionsTimeline s') = [Confirmed, Confirmed]) \<and>
   (\<exists>s'. executeTransactions example_safe_env 0 initial_state = (Inr (), s') \<and>
         map title (transactionsTimeline s') = [''A''] \<and>
         map status (transactionsTimeline s') = [SubmittedToSafe]) \<and>
   isl (fst (executeTransactions (example_env\<lparr>safe := True\<rparr>) 0 initial_state))"
proof -
  let ?ws = "[example_wrapper ''A'' True, example_wrapper ''B'' False]"
  have e: "transactionsTimeline initial_state = []" by (simp add: initial_state_def)
  have h3: "address (example_env\<lparr>safe := True\<rparr>) = Some ''0xme''"
    "before (example_env\<lparr>safe := True\<rparr>) = None"
    "transactions (example_env\<lparr>safe := True\<rparr>) = Inr ?ws"
    by (simp_all add: example_env_def)
  have n3: "safe (example_env\<lparr>safe := True\<rparr>) \<and> length ?ws \<noteq> 1"
    by (simp add: example_env_def)
  note t3 = no_failure_timeline[OF e h3]
  from mp[OF conjunct2[OF conjunct2[OF t3]] n3]
  have c: "isl (fst (executeTransactions (example_env\<lparr>safe := True\<rparr>) 0 initial_state))" .
  have h1: "address example_env = Some ''0xme''" "before example_env = None"
    "transactions example_env = Inr ?ws"
    by (simp_all add: example_env_def)
  have est: "estimates_ok (JArr [JObj [(''estimatedGas'', JNum 100)], JObj [(''estimatedGas'', JNum 101)]]) 0 ?ws"
    by (simp add: estimates_ok_def enumerate_eq_zip estimate_of_def example_wrapper_def)
  have n1: "\<not> safe example_env \<and> eoa_no_failure example_env ?ws"
    using est
    by (simp add: example_env_def eoa_no_failure_def simulation_fails_def send_ok_def upt_rec)
  have h2: "address example_safe_env = Some ''0xme''" "before example_safe_env = None"
    "transactions example_safe_env = Inr [example_wrapper ''A'' True]"
    by (simp_all add: example_safe_env_def example_env_def)
  have n2: "safe example_safe_env \<and> safe_no_failure example_safe_env [example_wrapper ''A'' True]"
    by (simp add: example_safe_env_def example_env_def safe_no_failure_def safe_simulation_ok_def
          safe_txs_def example_wrapper_def)
  note t1 = no_failure_timeline[OF e h1]
  note t2 = no_failure_timeline[OF e h2]
  from mp[OF conjunct1[OF t1] n1] obtain s1 where 1:
    "executeTransactions example_env 0 initial_state = (Inr (), s1)"
    "map title (transactionsTimeline s1) = map wrapper_title ?ws"
    "map status (transactionsTimeline s1) = replicate (length ?ws) Confirmed"
    by (elim exE conjE)
  from mp[OF conjunct1[OF conjunct2[OF t2]] n2] obtain s2 where 2:
    "executeTransactions example_safe_env 0 initial_state = (Inr (), s2)"
    "map title (transactionsTimeline s2) = map wrapper_title [example_wrapper ''A'' True]"
    "map status (transactionsTimeline s2) = [SubmittedToSafe]"
    by (elim exE conjE)
  have a: "\<exists>s'. executeTransactions example_env 0 initial_state = (Inr (), s') \<and>
         map title (transactionsTimeline s') = [''A'', ''B''] \<and>
         map status (transactionsTimeline s') = [Confirmed, Confirmed]"
    using 1 by (intro exI[of _ s1]) (simp add: example_wrapper_def numeral_2_eq_2)
  have b: "\<exists>s'. executeTransactions example_safe_env 0 initial_state = (Inr (), s') \<and>
         map title (transactionsTimeline s') = [''A''] \<and>
         map status (transactionsTimeline s') = [SubmittedToSafe]"
    using 2 by (intro exI[of _ s2]) (simp add: example_wrapper_def)
  from a b c show ?thesis by (intro conjI)
qed

text \<open>
  The reset of a retry. Let \<open>executeTransactions\<close> be called with \<open>retryIndex = k\<close>
  while a failure index is recorded (\<open>failedTxIndex\<close> is not \<open>-1\<close>), on a timeline that
  was built from the batch the hooks produce again, whose titles are unique, \<open>k\<close> being an
  index of the batch. Then: every transaction submitted during the attempt belongs to a
  wrapper at index \<open>k\<close> or above; the items below \<open>k\<close> that were \<open>confirmed\<close> are the
  same records after the attempt; the state observed at the first call of the attempt is
  the reset one, and the executor is entered with the reset timeline (not a re-initialised
  one); the reset clears the stored error, the visibility flag and \<open>failedTxIndex\<close>,
  leaves every \<open>confirmed\<close> item as it is, and turns every other item into \<open>retrying\<close>
  at index \<open>k\<close> and into \<open>awaitingPrevious\<close> elsewhere.
\<close>

lemma retry_reset_frame:
  assumes "failedTxIndex s \<noteq> - 1"
    and "address env = Some a" "before env = None" "transactions env = Inr ws"
    and "map title (transactionsTimeline s) = map wrapper_title ws"
    and "distinct (map wrapper_title ws)"
    and "0 \<le> k" "k < int (length ws)"
  shows "\<exists>r s'. executeTransactions env k s = (r, s') \<and>
     (\<forall>ev\<in>set (new_events s s'). \<forall>j\<in>set (submitted ev). k \<le> int j) \<and>
     (\<forall>j<length (transactionsTimeline s).
        int j < k \<and> status (transactionsTimeline s ! j) = Confirmed \<longrightarrow>
        transactionsTimeline s' ! j = transactionsTimeline s ! j) \<and>
     hd (drop (length (trace s)) (trace s')) =
       (AwaitBefore, view.truncate (recalculateTimelineStatuses k s)) \<and>
     transactionsTimeline (entry_state env k ws s) =
       transactionsTimeline (recalculateTimelineStatuses k s) \<and>
     error (recalculateTimelineStatuses k s) = None \<and>
     \<not> isErrorDetailsVisible (recalculateTimelineStatuses k s) \<and>
     failedTxIndex (recalculateTimelineStatuses k s) = - 1 \<and>
     length (transactionsTimeline (recalculateTimelineStatuses k s)) =
       length (transactionsTimeline s) \<and>
     (\<forall>j<length (transactionsTimeline s).
        transactionsTimeline (recalculateTimelineStatuses k s) ! j =
          (if status (transactionsTimeline s ! j) = Confirmed then transactionsTimeline s ! j
           else (transactionsTimeline s ! j)
                  \<lparr>status := (if int j = k then Retrying else AwaitingPrevious),
                   message := (if int j = k then ''Preparing to retry...''
                               else ''Waiting on previous transaction'')\<rparr>))"
proof -
  let ?rs = "recalculateTimelineStatuses k s"
  let ?s3 = "entry_state env k ws s"
  let ?s' = "snd (executeTransactions env k s)"
  let ?T = "wrapper_title ` set (drop (nat k) ws)"
  have len: "length (transactionsTimeline s) = length ws"
    using assms(5) by (rule map_eq_imp_length_eq)
  with assms(7,8) have ne: "transactionsTimeline s \<noteq> []" by auto
  have s3: "?s3 = emit AwaitTransactions (emit AwaitBefore (?rs\<lparr>contractReceipts := []\<rparr>))"
    using assms(1) ne by (rule entry_state_retry)
  have t3: "transactionsTimeline ?s3 = transactionsTimeline ?rs"
    by (simp add: s3)
  have tr3: "trace ?s3 = trace s @ [(AwaitBefore, view.truncate ?rs), (AwaitTransactions, view.truncate ?rs)]"
    by (simp add: s3 view.truncate_def)
  have len3: "length (transactionsTimeline ?s3) = length ws"
    by (simp add: t3 len)
  from attempt_frame[OF assms(2,3,4,7,8) len3] have
    k': "list_all2 (kept ?T) (transactionsTimeline ?s3) (transactionsTimeline ?s')"
    and e': "extends ?s3 ?s'"
    and ev': "\<forall>ev\<in>set (new_events ?s3 ?s'). \<forall>j\<in>set (submitted ev). k \<le> int j"
    by blast+
  have "new_events s ?s' = new_events s ?s3 @ new_events ?s3 ?s'"
    by (rule new_events_trans[OF _ e']) simp
  with ev' have a: "\<forall>ev\<in>set (new_events s ?s'). \<forall>j\<in>set (submitted ev). k \<le> int j"
    by auto
  have b: "\<forall>j<length (transactionsTimeline s).
        int j < k \<and> status (transactionsTimeline s ! j) = Confirmed \<longrightarrow>
        transactionsTimeline ?s' ! j = transactionsTimeline s ! j"
  proof (intro allI impI)
    fix j assume j: "j < length (transactionsTimeline s)"
      and c: "int j < k \<and> status (transactionsTimeline s ! j) = Confirmed"
    from j c have r: "transactionsTimeline ?rs ! j = transactionsTimeline s ! j"
      by (simp add: recalculate_nth)
    from c assms(8) have jk: "j < nat k" "nat k \<le> length ws" by arith+
    have "title (transactionsTimeline s ! j) = wrapper_title (ws ! j)"
      using assms(5) j by (metis length_map nth_map)
    with distinct_title_not_later[OF assms(6) jk]
    have "title (transactionsTimeline ?s3 ! j) \<notin> ?T" by (simp add: t3 r)
    from kept_nth[OF k' _ this] j show "transactionsTimeline ?s' ! j = transactionsTimeline s ! j"
      by (simp add: t3 r)
  qed
  from e' obtain zs where "trace ?s' = trace ?s3 @ zs"
    by (auto simp: extends_def prefix_def)
  with tr3 have c: "hd (drop (length (trace s)) (trace ?s')) = (AwaitBefore, view.truncate ?rs)"
    by simp
  have d: "\<forall>j<length (transactionsTimeline s).
        transactionsTimeline ?rs ! j =
          (if status (transactionsTimeline s ! j) = Confirmed then transactionsTimeline s ! j
           else (transactionsTimeline s ! j)
                  \<lparr>status := (if int j = k then Retrying else AwaitingPrevious),
                   message := (if int j = k then ''Preparing to retry...''
                               else ''Waiting on previous transaction'')\<rparr>)"
    by (simp add: recalculate_nth)
  show ?thesis
    using a b c d t3
    by (intro exI[of _ "fst (executeTransactions env k s)"] exI[of _ ?s']) simp
qed

lemma retry_reset_frame_example:
  "failedTxIndex example_failed_state \<noteq> - 1 \<and>
   distinct (map wrapper_title [example_wrapper ''A'' True, example_wrapper ''B'' False]) \<and>
   status (transactionsTimeline example_failed_state ! 0) = Confirmed \<and>
   (\<exists>r s'. executeTransactions example_env 1 example_failed_state = (r, s') \<and>
      transactionsTimeline s' ! 0 = transactionsTimeline example_failed_state ! 0 \<and>
      hd (drop (length (trace example_failed_state)) (trace s')) =
        (AwaitBefore, view.truncate (recalculateTimelineStatuses 1 example_failed_state)))"
proof -
  let ?ws = "[example_wrapper ''A'' True, example_wrapper ''B'' False]"
  let ?s = "example_failed_state"
  have h: "failedTxIndex ?s \<noteq> - 1" "address example_env = Some ''0xme''"
    "before example_env = None" "transactions example_env = Inr ?ws"
    "map title (transactionsTimeline ?s) = map wrapper_title ?ws"
    "distinct (map wrapper_title ?ws)" "(0::int) \<le> 1" "1 < int (length ?ws)"
    by (simp_all add: example_failed_state_view example_env_def example_wrapper_def)
  have l: "0 < length (transactionsTimeline ?s)"
    using example_failed_state_view(2) by (metis length_map length_Cons zero_less_Suc)
  have c: "status (transactionsTimeline ?s ! 0) = Confirmed"
    using example_failed_state_view(2) by (metis l nth_map nth_Cons_0)
  from retry_reset_frame[OF h] obtain r s' where 1:
    "executeTransactions example_env 1 ?s = (r, s')"
    "\<forall>j<length (transactionsTimeline ?s).
        int j < 1 \<and> status (transactionsTimeline ?s ! j) = Confirmed \<longrightarrow>
        transactionsTimeline s' ! j = transactionsTimeline ?s ! j"
    "hd (drop (length (trace ?s)) (trace s')) =
       (AwaitBefore, view.truncate (recalculateTimelineStatuses 1 ?s))"
    by (elim exE conjE)
  from 1(2) l c have 2: "transactionsTimeline s' ! 0 = transactionsTimeline ?s ! 0" by simp
  show ?thesis
    using h(1,6) c 1(1,3) 2 by (intro conjI exI[of _ r] exI[of _ s'])
qed

text \<open>
  C2 (the code departs from the claim). Take the state left by the multisig session of
  the example after the user rejected the submission: the item is \<open>rejected\<close>, the retry
  action is rendered and enabled, and \<open>failedTxIndex\<close> is \<open>-1\<close>, because the multisig
  executor records the index only when the submission fails for another reason. Invoking
  \<open>retryFailedTransaction\<close> then calls \<open>executeTransactions\<close> with \<open>retryIndex = -1\<close>
  and the reset is skipped: at each of the four calls the retry makes, up to the new
  submission, the item is still \<open>rejected\<close>, not \<open>retrying\<close>. When the first submission
  failed for another reason, the index \<open>0\<close> is recorded and the item is \<open>retrying\<close> at
  each of these calls.
\<close>

theorem safe_rejection_retry_example:
  "map status (transactionsTimeline example_safe_rejected_state) = [Rejected] \<and>
   failedTxIndex example_safe_rejected_state = - 1 \<and>
   try_again_rendered example_safe_rejected_state \<and>
   \<not> try_again_disabled example_safe_rejected_state \<and>
   new_events example_safe_rejected_state
     (snd (retryFailedTransaction example_safe_env example_safe_rejected_state)) =
     [AwaitBefore, AwaitTransactions, FetchSimulate [(Some ''0xto'', Some ''0xdata'')],
      SafeSend [(''0xto'', ''0xdata'')] NaN] \<and>
   map (map status \<circ> transactionsTimeline \<circ> snd)
     (drop (length (trace example_safe_rejected_state))
        (trace (snd (retryFailedTransaction example_safe_env example_safe_rejected_state)))) =
     [[Rejected], [Rejected], [Rejected], [Rejected]] \<and>
   failedTxIndex example_safe_failed_state = 0 \<and>
   map (map status \<circ> transactionsTimeline \<circ> snd)
     (drop (length (trace example_safe_failed_state))
        (trace (snd (retryFailedTransaction example_safe_env example_safe_failed_state)))) =
     [[Retrying], [Retrying], [Retrying], [Retrying]]"
  by code_simp

text \<open>
  C9 (the code departs from the claim). Take the state left by scenario A, in which the
  retry action is rendered and enabled, and invoke \<open>retryFailedTransaction\<close>. At each of
  the six calls the retry makes, from the \<open>before\<close> hook to the \<open>after\<close> hook, the guard
  \<open>isRetrying\<close> is false, so the binding \<open>disabled={isRetrying}\<close> of the retry action is
  false throughout: the reset of the timeline, which \<open>executeTransactions\<close> runs before
  its first suspension, clears the flag that \<open>retryFailedTransaction\<close> has just set. (At
  these points no row renders the retry action either, since the reset also sets
  \<open>failedTxIndex\<close> to \<open>-1\<close>.)
\<close>

theorem retry_guard_example:
  "new_events example_failed_state (snd (retryFailedTransaction example_env example_failed_state)) =
     [AwaitBefore, AwaitTransactions,
      FetchSimulate [(Some ''0xto'', Some ''0xdata''), (Some ''0xto'', Some ''0xdata'')],
      SendTransaction 1 (Some (Num 21000)), WaitReceipt 1, CallAfter [''0xr'']] \<and>
   map (try_again_disabled \<circ> snd)
     (drop (length (trace example_failed_state))
        (trace (snd (retryFailedTransaction example_env example_failed_state)))) =
     [False, False, False, False, False, False] \<and>
   map (try_again_rendered \<circ> snd)
     (drop (length (trace example_failed_state))
        (trace (snd (retryFailedTransaction example_env example_failed_state)))) =
     [False, False, False, False, False, False]"
  using retry_example_events retry_example_guard retry_example_rendered by (intro conjI)

text \<open>
  C6 fails as stated. In the direct-signing session of the example, let the \<open>after\<close> hook
  throw. The attempt dispatches the failure and then sets \<open>isExecutionCompleted\<close> all the
  same, while the last item is left \<open>finalizing\<close>, not \<open>confirmed\<close>.
\<close>

theorem after_hook_failure_counterexample:
  "isExecutionCompleted
     (snd (onMount (example_env\<lparr>after := Some (Thrown ''hook failed'')\<rparr>) initial_state)) \<and>
   map status (transactionsTimeline
     (snd (onMount (example_env\<lparr>after := Some (Thrown ''hook failed'')\<rparr>) initial_state))) =
     [Confirmed, Finalizing]"
  by code_simp

text \<open>
  C6, as the code has it. Consider an attempt on a timeline that is not yet initialised, or
  a retry at index \<open>k\<close> on a timeline built from the same batch in which every item not
  titled as a wrapper at index \<open>k\<close> or above is \<open>confirmed\<close>. If the attempt sets
  \<open>isExecutionCompleted\<close>, then no item is \<open>failed\<close>, \<open>rejected\<close> or \<open>retrying\<close> and
  \<open>failedTxIndex\<close> is \<open>-1\<close>; in direct-signing mode every item is \<open>confirmed\<close> when the
  \<open>after\<close> hook returned, and when the hook threw the failure is dispatched as the result
  of the flow and the items of the last wrapper are left \<open>finalizing\<close> (the others
  \<open>confirmed\<close>); in multisig mode the single item is \<open>submittedToSafe\<close>, and a failure
  thrown by \<open>afterSafe\<close> is dispatched as the result of the flow.
\<close>

theorem completion_only_after_success:
  assumes "address env = Some a" "before env = None" "transactions env = Inr ws"
    and "covered ws k s" "\<not> isExecutionCompleted s"
    and "isExecutionCompleted (snd (executeTransactions env k s))"
  shows "(\<not> safe env \<longrightarrow>
            (after env = None \<longrightarrow>
               list_all (\<lambda>b. status b = Confirmed)
                 (transactionsTimeline (snd (executeTransactions env k s)))) \<and>
            (\<forall>e. after env = Some e \<longrightarrow>
               list_all (\<lambda>b. status b = (if title b = wrapper_title (ws ! (length ws - 1))
                                          then Finalizing else Confirmed))
                 (transactionsTimeline (snd (executeTransactions env k s))) \<and>
               DispatchResultFailure e \<in> set (new_events s (snd (executeTransactions env k s))))) \<and>
         (safe env \<longrightarrow>
            map status (transactionsTimeline (snd (executeTransactions env k s))) = [SubmittedToSafe] \<and>
            (\<forall>e. afterSafe env = Some (Some e) \<longrightarrow>
               DispatchResultFailure e \<in> set (new_events s (snd (executeTransactions env k s))))) \<and>
         failedTxIndex (snd (executeTransactions env k s)) = - 1 \<and>
         \<not> has_failure (snd (executeTransactions env k s))"
proof (cases "safe env")
  case True
  from safe_completion[OF assms(1,2,3) True assms(4,5,6)] True show ?thesis
    by (auto simp: has_failure_iff)
next
  case False
  from eoa_completion[OF assms(1,2,3) False assms(4,5,6)] False show ?thesis by blast
qed

theorem completion_only_after_success_witness:
  "covered [example_wrapper ''A'' True, example_wrapper ''B'' False] 0 initial_state \<and>
   \<not> isExecutionCompleted initial_state \<and>
   isExecutionCompleted
     (snd (executeTransactions (example_env\<lparr>after := Some (Thrown ''hook failed'')\<rparr>) 0 initial_state)) \<and>
   DispatchResultFailure (Thrown ''hook failed'')
     \<in> set (new_events initial_state
         (snd (executeTransactions (example_env\<lparr>after := Some (Thrown ''hook failed'')\<rparr>) 0
                 initial_state))) \<and>
   failedTxIndex
     (snd (executeTransactions (example_env\<lparr>after := Some (Thrown ''hook failed'')\<rparr>) 0 initial_state))
     = - 1"
proof -
  let ?env = "example_env\<lparr>after := Some (Thrown ''hook failed'')\<rparr>"
  let ?ws = "[example_wrapper ''A'' True, example_wrapper ''B'' False]"
  have h: "address ?env = Some ''0xme''" "before ?env = None" "transactions ?env = Inr ?ws"
    by (simp_all add: example_env_def)
  have c: "covered ?ws 0 initial_state" "\<not> isExecutionCompleted initial_state"
    by (simp_all add: covered_def initial_state_def)
  have d: "isExecutionCompleted (snd (executeTransactions ?env 0 initial_state))"
    by code_simp
  have m: "\<not> safe ?env" "after ?env = Some (Thrown ''hook failed'')"
    by (simp_all add: example_env_def)
  note t = completion_only_after_success[OF h c d]
  from t m have 1: "DispatchResultFailure (Thrown ''hook failed'')
     \<in> set (new_events initial_state (snd (executeTransactions ?env 0 initial_state)))"
    by blast
  from t have 2: "failedTxIndex (snd (executeTransactions ?env 0 initial_state)) = - 1"
    by blast
  from c d 1 2 show ?thesis by (intro conjI)
qed

end
